theory Spec2Isabelle
  imports Complex_Main "HOL-Library.Word" "HOL-Library.Sublist"
begin

section \<open>Cubic surface extraction: data structures\<close>

text \<open>
  The embedding follows \<^verbatim>\<open>CubicSurfaceExtractor.inl\<close>. The voxel type
  \<^verbatim>\<open>VolumeType::VoxelType\<close> is the type variable \<open>'v\<close>; only its equality is used.
  Vertex and quad indices (\<^verbatim>\<open>uint32_t\<close>) are natural numbers: a mesh of a region that
  passes the size check holds fewer than \<open>2 ^ 27\<close> vertices, so they never wrap.
\<close>

datatype error = RegionTooLargeToEncode | VertexSlotExhausted

definition MaxVerticesPerPosition :: nat where
  "MaxVerticesPerPosition = 8"

datatype FaceNames = PositiveX | PositiveY | PositiveZ | NegativeX | NegativeY | NegativeZ

definition faceIndex :: "FaceNames \<Rightarrow> nat" where
  "faceIndex face =
     (case face of PositiveX \<Rightarrow> 0 | PositiveY \<Rightarrow> 1 | PositiveZ \<Rightarrow> 2
      | NegativeX \<Rightarrow> 3 | NegativeY \<Rightarrow> 4 | NegativeZ \<Rightarrow> 5)"

datatype Quad = Quad (qv0: nat) (qv1: nat) (qv2: nat) (qv3: nat)

record 'v CubicVertex =
  encodedPosition :: "8 word \<times> 8 word \<times> 8 word"
  data :: 'v
  ambientOcclusion :: "8 word"

text \<open>
  A slot of a slice buffer is an \<^verbatim>\<open>IndexAndMaterial\<close>. The buffers are filled with the byte
  \<^verbatim>\<open>0xff\<close>, which makes \<^verbatim>\<open>iIndex\<close> equal to \<open>-1\<close>; the other two fields of such a slot
  are never read. \<open>None\<close> is the slot with \<^verbatim>\<open>iIndex == -1\<close>, and \<open>Some (i, m, ao)\<close> the slot
  with \<^verbatim>\<open>iIndex = i\<close>, \<^verbatim>\<open>uMaterial = m\<close>, \<^verbatim>\<open>ambientOcclusion = ao\<close>. The three-dimensional
  \<^verbatim>\<open>Array\<close> is indexed by \<open>(x, y, slot)\<close>.
\<close>

type_synonym 'v IndexAndMaterial = "(nat \<times> 'v \<times> 8 word) option"

type_synonym 'v SliceBuffer = "nat \<times> nat \<times> nat \<Rightarrow> 'v IndexAndMaterial"

text \<open>
  Modelled from the spec: the \<^verbatim>\<open>Mesh\<close> class (its vertex table, its index buffer and its
  offset, with \<^verbatim>\<open>addVertex\<close>, \<^verbatim>\<open>addTriangle\<close>, \<^verbatim>\<open>getVertex\<close>, \<^verbatim>\<open>clear\<close>, \<^verbatim>\<open>setOffset\<close> and
  \<^verbatim>\<open>removeUnusedVertices\<close>) is used by the extractor but defined elsewhere.
  \<^verbatim>\<open>addVertex\<close> appends and returns the new vertex's index, \<^verbatim>\<open>addTriangle\<close> appends three
  indices, \<^verbatim>\<open>removeUnusedVertices\<close> compacts the vertex table to the referenced vertices,
  keeping their order, and renumbers the indices.
\<close>

record 'v Mesh =
  m_vecVertices :: "'v CubicVertex list"
  m_vecIndices :: "nat list"
  m_offset :: "int \<times> int \<times> int"

definition Mesh_addVertex :: "'v CubicVertex \<Rightarrow> 'v Mesh \<Rightarrow> nat \<times> 'v Mesh" where
  "Mesh_addVertex v m = (length (m_vecVertices m), m\<lparr>m_vecVertices := m_vecVertices m @ [v]\<rparr>)"

definition Mesh_addTriangle :: "nat \<Rightarrow> nat \<Rightarrow> nat \<Rightarrow> 'v Mesh \<Rightarrow> 'v Mesh" where
  "Mesh_addTriangle i0 i1 i2 m = m\<lparr>m_vecIndices := m_vecIndices m @ [i0, i1, i2]\<rparr>"

definition getVertex :: "'v Mesh \<Rightarrow> nat \<Rightarrow> 'v CubicVertex" where
  "getVertex m i = m_vecVertices m ! i"

definition Mesh_clear :: "'v Mesh \<Rightarrow> 'v Mesh" where
  "Mesh_clear m = m\<lparr>m_vecVertices := [], m_vecIndices := []\<rparr>"

definition setOffset :: "int \<times> int \<times> int \<Rightarrow> 'v Mesh \<Rightarrow> 'v Mesh" where
  "setOffset off m = m\<lparr>m_offset := off\<rparr>"

definition isVertexUsed :: "'v Mesh \<Rightarrow> nat \<Rightarrow> bool" where
  "isVertexUsed m i = (i \<in> set (m_vecIndices m))"

definition newPos :: "'v Mesh \<Rightarrow> nat \<Rightarrow> nat" where
  "newPos m i = length (filter (isVertexUsed m) [0..<i])"

definition removeUnusedVertices :: "'v Mesh \<Rightarrow> 'v Mesh" where
  "removeUnusedVertices m =
     m\<lparr>m_vecVertices := map (\<lambda>i. m_vecVertices m ! i)
                           (filter (isVertexUsed m) [0..<length (m_vecVertices m)]),
       m_vecIndices := map (newPos m) (m_vecIndices m)\<rparr>"

section \<open>Ambient occlusion\<close>

text \<open>
  \<^verbatim>\<open>vertexAmbientOcclusion\<close> computes \<^verbatim>\<open>3 - (side1 + side2 + corner)\<close> on \<^verbatim>\<open>int\<close> (the
  booleans are promoted) and returns it as \<^verbatim>\<open>uint8_t\<close>.
\<close>

definition vertexAmbientOcclusion :: "bool \<Rightarrow> bool \<Rightarrow> bool \<Rightarrow> 8 word" where
  "vertexAmbientOcclusion side1 side2 corner =
     (if side1 \<and> side2 then 0
      else word_of_int (3 - (of_bool side1 + of_bool side2 + of_bool corner)))"

section \<open>Vertex deduplication\<close>

text \<open>
  \<^verbatim>\<open>addVertex\<close> walks the slots \<open>ct = 0, \<dots>, MaxVerticesPerPosition - 1\<close> of the column
  \<open>(uX, uY)\<close>. The position is stored with \<^verbatim>\<open>static_cast<uint8_t>\<close>. The function returns
  the index together with the updated buffer and mesh; the throw after the loop happens
  before anything was written.
\<close>

fun addVertex_probe ::
  "nat list \<Rightarrow> nat \<Rightarrow> nat \<Rightarrow> nat \<Rightarrow> 'v \<Rightarrow> 8 word \<Rightarrow> 'v SliceBuffer \<Rightarrow> 'v Mesh
     \<Rightarrow> error + (nat \<times> 'v SliceBuffer \<times> 'v Mesh)" where
  "addVertex_probe [] uX uY uZ uMaterialIn ao existingVertices m = Inl VertexSlotExhausted"
| "addVertex_probe (ct # cts) uX uY uZ uMaterialIn ao existingVertices m =
     (case existingVertices (uX, uY, ct) of
        None \<Rightarrow>
          (let cubicVertex = \<lparr>encodedPosition = (of_nat uX, of_nat uY, of_nat uZ),
                              data = uMaterialIn, ambientOcclusion = ao\<rparr>;
               (iIndex, m') = Mesh_addVertex cubicVertex m
           in Inr (iIndex, existingVertices((uX, uY, ct) := Some (iIndex, uMaterialIn, ao)), m'))
      | Some (iIndex, uMaterial, slotAO) \<Rightarrow>
          if uMaterial = uMaterialIn \<and> slotAO = ao then Inr (iIndex, existingVertices, m)
          else addVertex_probe cts uX uY uZ uMaterialIn ao existingVertices m)"

definition addVertex ::
  "nat \<Rightarrow> nat \<Rightarrow> nat \<Rightarrow> 'v \<Rightarrow> 'v SliceBuffer \<Rightarrow> 'v Mesh \<Rightarrow> 'v \<Rightarrow> 'v \<Rightarrow> 'v \<Rightarrow> ('v \<Rightarrow> bool)
     \<Rightarrow> error + (nat \<times> 'v SliceBuffer \<times> 'v Mesh)" where
  "addVertex uX uY uZ uMaterialIn existingVertices m face1 face2 corner contributeToAO =
     addVertex_probe [0..<MaxVerticesPerPosition] uX uY uZ uMaterialIn
       (vertexAmbientOcclusion (contributeToAO face1) (contributeToAO face2) (contributeToAO corner))
       existingVertices m"

section \<open>Quad merging\<close>

definition isSameVertex :: "'v CubicVertex \<Rightarrow> 'v CubicVertex \<Rightarrow> bool" where
  "isSameVertex v1 v2 = (data v1 = data v2 \<and> ambientOcclusion v1 = ambientOcclusion v2)"

text \<open>
  \<^verbatim>\<open>mergeQuads\<close> changes \<^verbatim>\<open>q1\<close> in place and returns whether it did: the model returns
  the new \<^verbatim>\<open>q1\<close>, or \<open>None\<close> for \<^verbatim>\<open>false\<close>, in which case neither quad was written.
\<close>

definition mergeQuads :: "Quad \<Rightarrow> Quad \<Rightarrow> 'v Mesh \<Rightarrow> Quad option" where
  "mergeQuads q1 q2 m_meshCurrent =
     (if isSameVertex (getVertex m_meshCurrent (qv0 q1)) (getVertex m_meshCurrent (qv0 q2))
         \<and> isSameVertex (getVertex m_meshCurrent (qv1 q1)) (getVertex m_meshCurrent (qv1 q2))
         \<and> isSameVertex (getVertex m_meshCurrent (qv2 q1)) (getVertex m_meshCurrent (qv2 q2))
         \<and> isSameVertex (getVertex m_meshCurrent (qv3 q1)) (getVertex m_meshCurrent (qv3 q2))
      then
        if qv0 q1 = qv1 q2 \<and> qv3 q1 = qv2 q2 then Some (Quad (qv0 q2) (qv1 q1) (qv2 q1) (qv3 q2))
        else if qv3 q1 = qv0 q2 \<and> qv2 q1 = qv1 q2 then Some (Quad (qv0 q1) (qv1 q1) (qv2 q2) (qv3 q2))
        else if qv1 q1 = qv0 q2 \<and> qv2 q1 = qv3 q2 then Some (Quad (qv0 q1) (qv1 q2) (qv2 q2) (qv3 q1))
        else if qv0 q1 = qv3 q2 \<and> qv1 q1 = qv2 q2 then Some (Quad (qv0 q2) (qv1 q2) (qv2 q1) (qv3 q1))
        else None
      else None)"

text \<open>
  The inner loop of \<^verbatim>\<open>performQuadMerging\<close>: \<^verbatim>\<open>q1\<close> is the quad under the outer iterator,
  the list holds the quads from the inner iterator on. A merged \<^verbatim>\<open>q2\<close> is erased, the others
  stay. The result is the final \<^verbatim>\<open>q1\<close>, the remaining quads and whether a merge happened.
\<close>

fun mergeInto :: "Quad \<Rightarrow> Quad list \<Rightarrow> 'v Mesh \<Rightarrow> Quad \<times> Quad list \<times> bool" where
  "mergeInto q1 [] m = (q1, [], False)"
| "mergeInto q1 (q2 # rest) m =
     (case mergeQuads q1 q2 m of
        Some q1' \<Rightarrow> (case mergeInto q1' rest m of (q, rest', _) \<Rightarrow> (q, rest', True))
      | None \<Rightarrow> (case mergeInto q1 rest m of (q, rest', b) \<Rightarrow> (q, q2 # rest', b)))"

lemma mergeInto_length:
  "mergeInto q1 qs m = (q, rest', b) \<Longrightarrow> length rest' \<le> length qs"
proof (induction qs arbitrary: q1 q rest' b)
  case Nil
  then show ?case by simp
next
  case (Cons q2 rest)
  show ?case
  proof (cases "mergeQuads q1 q2 m")
    case None
    obtain q' r' b' where mi: "mergeInto q1 rest m = (q', r', b')"
      by (cases "mergeInto q1 rest m") auto
    from Cons.IH [OF mi] Cons.prems None mi show ?thesis by auto
  next
    case (Some q1')
    obtain q' r' b' where mi: "mergeInto q1' rest m = (q', r', b')"
      by (cases "mergeInto q1' rest m") auto
    from Cons.IH [OF mi] Cons.prems Some mi show ?thesis by auto
  qed
qed

lemma mergeInto_length_merged:
  "mergeInto q1 qs m = (q, rest', True) \<Longrightarrow> length rest' < length qs"
proof (induction qs arbitrary: q1 q rest')
  case Nil
  then show ?case by simp
next
  case (Cons q2 rest)
  show ?case
  proof (cases "mergeQuads q1 q2 m")
    case None
    obtain q' r' b' where mi: "mergeInto q1 rest m = (q', r', b')"
      by (cases "mergeInto q1 rest m") auto
    with Cons.prems None have "b'" and "rest' = q2 # r'" by auto
    with Cons.IH [of q1 q' r'] mi show ?thesis by simp
  next
    case (Some q1')
    obtain q' r' b' where mi: "mergeInto q1' rest m = (q', r', b')"
      by (cases "mergeInto q1' rest m") auto
    from mergeInto_length [OF mi] Cons.prems Some mi show ?thesis by auto
  qed
qed

function performQuadMerging :: "Quad list \<Rightarrow> 'v Mesh \<Rightarrow> Quad list \<times> bool" where
  "performQuadMerging [] m = ([], False)"
| "performQuadMerging (q1 # rest) m =
     (case mergeInto q1 rest m of
        (q1', rest', b) \<Rightarrow>
          (case performQuadMerging rest' m of (rest'', b') \<Rightarrow> (q1' # rest'', b \<or> b')))"
  by pat_completeness auto
termination
proof (relation "measure (\<lambda>(qs, m). length qs)")
  show "wf (measure (\<lambda>(qs, m :: 'v Mesh). length qs))" by simp
next
  fix q1 :: Quad and rest :: "Quad list" and m :: "'v Mesh" and x q1' y rest' b
  assume "(q1', y) = mergeInto q1 rest m" and "(rest', b) = y"
  then have "mergeInto q1 rest m = (q1', rest', b)"
    by simp
  then have "length rest' \<le> length rest"
    by (rule mergeInto_length)
  then show "((rest', m), q1 # rest, m) \<in> measure (\<lambda>(qs, m). length qs)"
    by simp
qed

lemma performQuadMerging_length:
  "performQuadMerging qs m = (qs', b) \<Longrightarrow> length qs' \<le> length qs"
proof (induction qs m arbitrary: qs' b rule: performQuadMerging.induct)
  case (1 m)
  then show ?case by simp
next
  case (2 q1 rest m)
  obtain q1' rest' b1 where mi: "mergeInto q1 rest m = (q1', rest', b1)"
    by (cases "mergeInto q1 rest m") auto
  obtain rest'' b2 where pq: "performQuadMerging rest' m = (rest'', b2)"
    by (cases "performQuadMerging rest' m") auto
  have "length rest' \<le> length rest"
    using mi by (rule mergeInto_length)
  moreover have "length rest'' \<le> length rest'"
    using "2.IH" [OF mi [symmetric] refl pq] .
  ultimately show ?case
    using "2.prems" mi pq by auto
qed

lemma performQuadMerging_length_merged:
  "performQuadMerging qs m = (qs', True) \<Longrightarrow> length qs' < length qs"
proof (induction qs m arbitrary: qs' rule: performQuadMerging.induct)
  case (1 m)
  then show ?case by simp
next
  case (2 q1 rest m)
  obtain q1' rest' b1 where mi: "mergeInto q1 rest m = (q1', rest', b1)"
    by (cases "mergeInto q1 rest m") auto
  obtain rest'' b2 where pq: "performQuadMerging rest' m = (rest'', b2)"
    by (cases "performQuadMerging rest' m") auto
  have le1: "length rest' \<le> length rest"
    using mi by (rule mergeInto_length)
  have le2: "length rest'' \<le> length rest'"
    using pq by (rule performQuadMerging_length)
  from "2.prems" mi pq have qs': "qs' = q1' # rest''" and "b1 \<or> b2" by auto
  from \<open>b1 \<or> b2\<close> show ?case
  proof
    assume b1
    with mi have "length rest' < length rest"
      by (auto dest: mergeInto_length_merged)
    with le2 qs' show ?thesis by simp
  next
    assume b2
    with "2.IH" [OF mi [symmetric] refl, of rest''] pq have "length rest'' < length rest'"
      by simp
    with le1 qs' show ?thesis by simp
  qed
qed

section \<open>Triangulation of a quad\<close>

text \<open>
  The body of the loop over the quads of one list, at the end of
  \<^verbatim>\<open>extractCubicMeshCustom\<close>. The two \<^verbatim>\<open>uint8_t\<close> occlusion values are added as \<^verbatim>\<open>int\<close>.
\<close>

definition addQuadTriangles :: "Quad \<Rightarrow> 'v Mesh \<Rightarrow> 'v Mesh" where
  "addQuadTriangles quad m =
     (let v00 = getVertex m (qv3 quad);
          v01 = getVertex m (qv0 quad);
          v10 = getVertex m (qv2 quad);
          v11 = getVertex m (qv1 quad);
          m' = (if unat (ambientOcclusion v00) + unat (ambientOcclusion v11)
                    > unat (ambientOcclusion v01) + unat (ambientOcclusion v10)
                then Mesh_addTriangle (qv1 quad) (qv3 quad) (qv0 quad)
                       (Mesh_addTriangle (qv1 quad) (qv2 quad) (qv3 quad) m)
                else Mesh_addTriangle (qv0 quad) (qv2 quad) (qv3 quad)
                       (Mesh_addTriangle (qv0 quad) (qv1 quad) (qv2 quad) m))
      in Mesh_addTriangle (qv0 quad) (qv2 quad) (qv3 quad) m')"

section \<open>The sweep over the region\<close>

text \<open>
  Modelled from the spec: the \<^verbatim>\<open>Region\<close> class is defined elsewhere. A region is a closed
  box of integer coordinates, and its width in voxels counts the voxels from the lower to
  the upper corner, both included.
\<close>

record Region =
  lowerX :: int
  lowerY :: int
  lowerZ :: int
  upperX :: int
  upperY :: int
  upperZ :: int

definition getWidthInVoxels :: "Region \<Rightarrow> int" where
  "getWidthInVoxels r = upperX r - lowerX r + 1"

definition getHeightInVoxels :: "Region \<Rightarrow> int" where
  "getHeightInVoxels r = upperY r - lowerY r + 1"

definition getDepthInVoxels :: "Region \<Rightarrow> int" where
  "getDepthInVoxels r = upperZ r - lowerZ r + 1"

definition getLowerCorner :: "Region \<Rightarrow> int \<times> int \<times> int" where
  "getLowerCorner r = (lowerX r, lowerY r, lowerZ r)"

text \<open>
  The volume is read through a sampler. Its contract is the only part the extractor
  relies on: a position, and the voxel at a one-step offset from it. The volume is the
  function from coordinates to voxels, which includes its border policy.
  \<^verbatim>\<open>peekVoxel1nx0py1pz\<close> is \<open>peekVoxel volData pos (-1) 0 1\<close>.
\<close>

type_synonym 'v Volume = "int \<times> int \<times> int \<Rightarrow> 'v"

definition peekVoxel :: "'v Volume \<Rightarrow> int \<times> int \<times> int \<Rightarrow> int \<Rightarrow> int \<Rightarrow> int \<Rightarrow> 'v" where
  "peekVoxel volData pos dx dy dz = (case pos of (x, y, z) \<Rightarrow> volData (x + dx, y + dy, z + dz))"

definition moveNegativeX :: "int \<times> int \<times> int \<Rightarrow> int \<times> int \<times> int" where
  "moveNegativeX pos = (case pos of (x, y, z) \<Rightarrow> (x - 1, y, z))"

definition moveNegativeY :: "int \<times> int \<times> int \<Rightarrow> int \<times> int \<times> int" where
  "moveNegativeY pos = (case pos of (x, y, z) \<Rightarrow> (x, y - 1, z))"

definition moveNegativeZ :: "int \<times> int \<times> int \<Rightarrow> int \<times> int \<times> int" where
  "moveNegativeZ pos = (case pos of (x, y, z) \<Rightarrow> (x, y, z - 1))"

text \<open>
  The state of an extraction: the mesh under construction, the two slice buffers and the
  six vectors of quad lists (\<^verbatim>\<open>std::vector< std::list<Quad> > m_vecQuads[NoOfFaces]\<close>),
  an array indexed by the number of the face in the enumeration. An error carries the mesh as it is when the exception leaves
  the extractor.
\<close>

record 'v ExtractState =
  result :: "'v Mesh"
  m_previousSliceVertices :: "'v SliceBuffer"
  m_currentSliceVertices :: "'v SliceBuffer"
  m_vecQuads :: "Quad list list list"

type_synonym ('v, 'a) outcome = "(error \<times> 'v Mesh) + 'a"

datatype SliceSel = Previous | Current

text \<open>
  One call of \<^verbatim>\<open>addVertex\<close> in the sweep: the position, the buffer it is looked up in and
  the three voxels that decide the ambient occlusion.
\<close>

type_synonym 'v VertexRequest = "(nat \<times> nat \<times> nat) \<times> SliceSel \<times> ('v \<times> 'v \<times> 'v)"

definition addVertexIn ::
  "'v \<Rightarrow> ('v \<Rightarrow> bool) \<Rightarrow> 'v VertexRequest \<Rightarrow> 'v ExtractState \<Rightarrow> ('v, nat \<times> 'v ExtractState) outcome" where
  "addVertexIn material contributeToAO req st =
     (case req of ((uX, uY, uZ), sel, (face1, face2, corner)) \<Rightarrow>
        (case sel of
           Previous \<Rightarrow>
             (case addVertex uX uY uZ material (m_previousSliceVertices st) (result st)
                     face1 face2 corner contributeToAO of
                Inl e \<Rightarrow> Inl (e, result st)
              | Inr (i, buf, m) \<Rightarrow> Inr (i, st\<lparr>result := m, m_previousSliceVertices := buf\<rparr>))
         | Current \<Rightarrow>
             (case addVertex uX uY uZ material (m_currentSliceVertices st) (result st)
                     face1 face2 corner contributeToAO of
                Inl e \<Rightarrow> Inl (e, result st)
              | Inr (i, buf, m) \<Rightarrow> Inr (i, st\<lparr>result := m, m_currentSliceVertices := buf\<rparr>))))"

fun addVertices ::
  "'v \<Rightarrow> ('v \<Rightarrow> bool) \<Rightarrow> 'v VertexRequest list \<Rightarrow> 'v ExtractState
     \<Rightarrow> ('v, nat list \<times> 'v ExtractState) outcome" where
  "addVertices material contributeToAO [] st = Inr ([], st)"
| "addVertices material contributeToAO (req # reqs) st =
     (case addVertexIn material contributeToAO req st of
        Inl e \<Rightarrow> Inl e
      | Inr (i, st') \<Rightarrow>
          (case addVertices material contributeToAO reqs st' of
             Inl e \<Rightarrow> Inl e
           | Inr (is, st'') \<Rightarrow> Inr (i # is, st'')))"

definition push_back :: "FaceNames \<Rightarrow> nat \<Rightarrow> Quad \<Rightarrow> 'v ExtractState \<Rightarrow> 'v ExtractState" where
  "push_back face sliceNo q st =
     st\<lparr>m_vecQuads := (m_vecQuads st)
            [faceIndex face := (m_vecQuads st ! faceIndex face)
                                 [sliceNo := m_vecQuads st ! faceIndex face ! sliceNo @ [q]]]\<rparr>"

text \<open>
  One of the six blocks of the loop body. \<open>needed\<close> is the answer of \<^verbatim>\<open>isQuadNeeded\<close>
  (the material it fills in, when it returns true); the four requests are the four calls of
  \<^verbatim>\<open>addVertex\<close> in the order of the source, giving \<open>a, b, c, d\<close>. The negative faces push
  \<open>Quad a b c d\<close>, the positive ones \<open>Quad a d c b\<close>.

  \<^verbatim>\<open>isQuadNeeded\<close> is a pure function of its two voxels, so the six answers can be taken
  before the first block runs. In \<open>faceBlocks\<close> the voxels have the names of the source;
  those that the blocks B, D and F read after moving the sampler (\<^verbatim>\<open>_voxelRightBefore\<close> and
  so on) carry the letter of their block in place of the underscore. The loop variables
  \<open>x\<close>, \<open>y\<close>, \<open>z\<close> and the corners of the region are unbounded integers.
\<close>

type_synonym 'v FaceBlock = "'v option \<times> FaceNames \<times> nat \<times> bool \<times> 'v VertexRequest list"

definition emitFace :: "('v \<Rightarrow> bool) \<Rightarrow> 'v FaceBlock \<Rightarrow> 'v ExtractState \<Rightarrow> ('v, 'v ExtractState) outcome" where
  "emitFace contributeToAO blk st =
     (case blk of (needed, face, sliceNo, reversed, reqs) \<Rightarrow>
        (case needed of
           None \<Rightarrow> Inr st
         | Some material \<Rightarrow>
             (case addVertices material contributeToAO reqs st of
                Inl e \<Rightarrow> Inl e
              | Inr (is, st') \<Rightarrow>
                  Inr (push_back face sliceNo
                         (if reversed then Quad (is ! 0) (is ! 3) (is ! 2) (is ! 1)
                          else Quad (is ! 0) (is ! 1) (is ! 2) (is ! 3)) st'))))"

fun forM :: "'a list \<Rightarrow> ('a \<Rightarrow> 's \<Rightarrow> 'e + 's) \<Rightarrow> 's \<Rightarrow> 'e + 's" where
  "forM [] body s = Inr s"
| "forM (x # xs) body s = (case body x s of Inl e \<Rightarrow> Inl e | Inr s' \<Rightarrow> forM xs body s')"

definition faceBlocks ::
  "'v Volume \<Rightarrow> Region \<Rightarrow> ('v \<Rightarrow> 'v \<Rightarrow> 'v option) \<Rightarrow> int \<Rightarrow> int \<Rightarrow> int \<Rightarrow> 'v FaceBlock list" where
  "faceBlocks volData region isQuadNeeded x y z =
     (let regX = nat (x - lowerX region);
          regY = nat (y - lowerY region);
          regZ = nat (z - lowerZ region);
          pos = (x, y, z);
          voxelCurrent = peekVoxel volData pos 0 0 0;
          voxelLeft = peekVoxel volData pos (-1) 0 0;
          voxelBefore = peekVoxel volData pos 0 0 (-1);
          voxelLeftBefore = peekVoxel volData pos (-1) 0 (-1);
          voxelRightBefore = peekVoxel volData pos 1 0 (-1);
          voxelLeftBehind = peekVoxel volData pos (-1) 0 1;
          voxelAboveLeft = peekVoxel volData pos (-1) 1 0;
          voxelAboveBefore = peekVoxel volData pos 0 1 (-1);
          voxelAboveLeftBefore = peekVoxel volData pos (-1) 1 (-1);
          voxelAboveRightBefore = peekVoxel volData pos 1 1 (-1);
          voxelAboveLeftBehind = peekVoxel volData pos (-1) 1 1;
          voxelBelow = peekVoxel volData pos 0 (-1) 0;
          voxelBelowLeft = peekVoxel volData pos (-1) (-1) 0;
          voxelBelowRight = peekVoxel volData pos 1 (-1) 0;
          voxelBelowBefore = peekVoxel volData pos 0 (-1) (-1);
          voxelBelowBehind = peekVoxel volData pos 0 (-1) 1;
          voxelBelowLeftBefore = peekVoxel volData pos (-1) (-1) (-1);
          voxelBelowRightBefore = peekVoxel volData pos 1 (-1) (-1);
          voxelBelowLeftBehind = peekVoxel volData pos (-1) (-1) 1;
          voxelBelowRightBehind = peekVoxel volData pos 1 (-1) 1;
          posB = moveNegativeX pos;
          B_voxelRightBefore = peekVoxel volData posB 1 0 (-1);
          B_voxelRightBehind = peekVoxel volData posB 1 0 1;
          B_voxelAboveRight = peekVoxel volData posB 1 1 0;
          B_voxelAboveRightBefore = peekVoxel volData posB 1 1 (-1);
          B_voxelAboveRightBehind = peekVoxel volData posB 1 1 1;
          B_voxelBelowRight = peekVoxel volData posB 1 (-1) 0;
          B_voxelBelowRightBefore = peekVoxel volData posB 1 (-1) (-1);
          B_voxelBelowRightBehind = peekVoxel volData posB 1 (-1) 1;
          posD = moveNegativeY pos;
          D_voxelAboveLeft = peekVoxel volData posD (-1) 1 0;
          D_voxelAboveRight = peekVoxel volData posD 1 1 0;
          D_voxelAboveBefore = peekVoxel volData posD 0 1 (-1);
          D_voxelAboveBehind = peekVoxel volData posD 0 1 1;
          D_voxelAboveLeftBefore = peekVoxel volData posD (-1) 1 (-1);
          D_voxelAboveRightBefore = peekVoxel volData posD 1 1 (-1);
          D_voxelAboveLeftBehind = peekVoxel volData posD (-1) 1 1;
          D_voxelAboveRightBehind = peekVoxel volData posD 1 1 1;
          posF = moveNegativeZ pos;
          F_voxelLeftBehind = peekVoxel volData posF (-1) 0 1;
          F_voxelRightBehind = peekVoxel volData posF 1 0 1;
          F_voxelAboveBehind = peekVoxel volData posF 0 1 1;
          F_voxelAboveLeftBehind = peekVoxel volData posF (-1) 1 1;
          F_voxelAboveRightBehind = peekVoxel volData posF 1 1 1;
          F_voxelBelowBehind = peekVoxel volData posF 0 (-1) 1;
          F_voxelBelowLeftBehind = peekVoxel volData posF (-1) (-1) 1;
          F_voxelBelowRightBehind = peekVoxel volData posF 1 (-1) 1
      in
      [ \<comment> \<open>X [A] LEFT\<close>
        (isQuadNeeded voxelCurrent voxelLeft, NegativeX, regX, False,
         [((regX, regY, regZ), Previous, (voxelLeftBefore, voxelBelowLeft, voxelBelowLeftBefore)),
          ((regX, regY, regZ + 1), Current, (voxelBelowLeft, voxelLeftBehind, voxelBelowLeftBehind)),
          ((regX, regY + 1, regZ + 1), Current, (voxelLeftBehind, voxelAboveLeft, voxelAboveLeftBehind)),
          ((regX, regY + 1, regZ), Previous, (voxelAboveLeft, voxelLeftBefore, voxelAboveLeftBefore))]),
        \<comment> \<open>X [B] RIGHT\<close>
        (isQuadNeeded voxelLeft voxelCurrent, PositiveX, regX, True,
         [((regX, regY, regZ), Previous, (B_voxelBelowRight, B_voxelRightBefore, B_voxelBelowRightBefore)),
          ((regX, regY, regZ + 1), Current, (B_voxelBelowRight, B_voxelRightBehind, B_voxelBelowRightBehind)),
          ((regX, regY + 1, regZ + 1), Current, (B_voxelAboveRight, B_voxelRightBehind, B_voxelAboveRightBehind)),
          ((regX, regY + 1, regZ), Previous, (B_voxelAboveRight, B_voxelRightBefore, B_voxelAboveRightBefore))]),
        \<comment> \<open>Y [C] BELOW\<close>
        (isQuadNeeded voxelCurrent voxelBelow, NegativeY, regY, False,
         [((regX, regY, regZ), Previous, (voxelBelowBefore, voxelBelowLeft, voxelBelowLeftBefore)),
          ((regX + 1, regY, regZ), Previous, (voxelBelowRight, voxelBelowBefore, voxelBelowRightBefore)),
          ((regX + 1, regY, regZ + 1), Current, (voxelBelowBehind, voxelBelowRight, voxelBelowRightBehind)),
          ((regX, regY, regZ + 1), Current, (voxelBelowLeft, voxelBelowBehind, voxelBelowLeftBehind))]),
        \<comment> \<open>Y [D] ABOVE\<close>
        (isQuadNeeded voxelBelow voxelCurrent, PositiveY, regY, True,
         [((regX, regY, regZ), Previous, (D_voxelAboveBefore, D_voxelAboveLeft, D_voxelAboveLeftBefore)),
          ((regX + 1, regY, regZ), Previous, (D_voxelAboveRight, D_voxelAboveBefore, D_voxelAboveRightBefore)),
          ((regX + 1, regY, regZ + 1), Current, (D_voxelAboveBehind, D_voxelAboveRight, D_voxelAboveRightBehind)),
          ((regX, regY, regZ + 1), Current, (D_voxelAboveLeft, D_voxelAboveBehind, D_voxelAboveLeftBehind))]),
        \<comment> \<open>Z [E] BEFORE\<close>
        (isQuadNeeded voxelCurrent voxelBefore, NegativeZ, regZ, False,
         [((regX, regY, regZ), Previous, (voxelBelowBefore, voxelLeftBefore, voxelBelowLeftBefore)),
          ((regX, regY + 1, regZ), Previous, (voxelAboveBefore, voxelLeftBefore, voxelAboveLeftBefore)),
          ((regX + 1, regY + 1, regZ), Previous, (voxelAboveBefore, voxelRightBefore, voxelAboveRightBefore)),
          ((regX + 1, regY, regZ), Previous, (voxelBelowBefore, voxelRightBefore, voxelBelowRightBefore))]),
        \<comment> \<open>Z [F] BEHIND\<close>
        (isQuadNeeded voxelBefore voxelCurrent, PositiveZ, regZ, True,
         [((regX, regY, regZ), Previous, (F_voxelBelowBehind, F_voxelLeftBehind, F_voxelBelowLeftBehind)),
          ((regX, regY + 1, regZ), Previous, (F_voxelAboveBehind, F_voxelLeftBehind, F_voxelAboveLeftBehind)),
          ((regX + 1, regY + 1, regZ), Previous, (F_voxelAboveBehind, F_voxelRightBehind, F_voxelAboveRightBehind)),
          ((regX + 1, regY, regZ), Previous, (F_voxelBelowBehind, F_voxelRightBehind, F_voxelBelowRightBehind))])
      ])"

definition processVoxel ::
  "'v Volume \<Rightarrow> Region \<Rightarrow> ('v \<Rightarrow> 'v \<Rightarrow> 'v option) \<Rightarrow> ('v \<Rightarrow> bool) \<Rightarrow> int \<Rightarrow> int \<Rightarrow> int
     \<Rightarrow> 'v ExtractState \<Rightarrow> ('v, 'v ExtractState) outcome" where
  "processVoxel volData region isQuadNeeded contributeToAO x y z st =
     forM (faceBlocks volData region isQuadNeeded x y z) (emitFace contributeToAO) st"

text \<open>A buffer after \<^verbatim>\<open>memset(..., 0xff, ...)\<close>: every slot has \<^verbatim>\<open>iIndex == -1\<close>.\<close>

definition emptySlice :: "'v SliceBuffer" where
  "emptySlice = (\<lambda>_. None)"

text \<open>The end of a slice: the buffers are swapped and the new current one is reset.\<close>

definition finishSlice :: "'v ExtractState \<Rightarrow> 'v ExtractState" where
  "finishSlice st =
     st\<lparr>m_previousSliceVertices := m_currentSliceVertices st, m_currentSliceVertices := emptySlice\<rparr>"

definition sweepSlice ::
  "'v Volume \<Rightarrow> Region \<Rightarrow> ('v \<Rightarrow> 'v \<Rightarrow> 'v option) \<Rightarrow> ('v \<Rightarrow> bool) \<Rightarrow> int
     \<Rightarrow> 'v ExtractState \<Rightarrow> ('v, 'v ExtractState) outcome" where
  "sweepSlice volData region isQuadNeeded contributeToAO z st =
     (case forM [lowerY region..upperY region]
             (\<lambda>y. forM [lowerX region..upperX region]
                    (\<lambda>x. processVoxel volData region isQuadNeeded contributeToAO x y z)) st of
        Inl e \<Rightarrow> Inl e
      | Inr st' \<Rightarrow> Inr (finishSlice st'))"

definition sweep ::
  "'v Volume \<Rightarrow> Region \<Rightarrow> ('v \<Rightarrow> 'v \<Rightarrow> 'v option) \<Rightarrow> ('v \<Rightarrow> bool)
     \<Rightarrow> 'v ExtractState \<Rightarrow> ('v, 'v ExtractState) outcome" where
  "sweep volData region isQuadNeeded contributeToAO st =
     forM [lowerZ region..upperZ region] (sweepSlice volData region isQuadNeeded contributeToAO) st"

section \<open>Merging and triangulating the quad lists\<close>

text \<open>The loop \<^verbatim>\<open>while (performQuadMerging(listQuads, result)) {}\<close>.\<close>

function mergeUntilStable :: "Quad list \<Rightarrow> 'v Mesh \<Rightarrow> Quad list" where
  "mergeUntilStable listQuads m =
     (case performQuadMerging listQuads m of
        (listQuads', bDidMerge) \<Rightarrow> if bDidMerge then mergeUntilStable listQuads' m else listQuads')"
  by pat_completeness auto
termination
proof (relation "measure (\<lambda>(qs, m). length qs)", goal_cases)
  case 1
  show ?case by simp
next
  case (2 listQuads m listQuads' bDidMerge)
  then have "performQuadMerging listQuads m = (listQuads', True)"
    by simp
  then have "length listQuads' < length listQuads"
    by (rule performQuadMerging_length_merged)
  then show ?case
    by simp
qed

text \<open>
  The sizes the six vectors of quad lists are resized to. A quad is pushed at a slice
  number of at most \<open>upper - lower\<close>, which is within that size.
\<close>

definition vecQuadsSize :: "Region \<Rightarrow> FaceNames \<Rightarrow> nat" where
  "vecQuadsSize region face =
     (case face of
        PositiveX \<Rightarrow> nat (upperX region - lowerX region + 2)
      | NegativeX \<Rightarrow> nat (upperX region - lowerX region + 2)
      | PositiveY \<Rightarrow> nat (upperY region - lowerY region + 2)
      | NegativeY \<Rightarrow> nat (upperY region - lowerY region + 2)
      | PositiveZ \<Rightarrow> nat (upperZ region - lowerZ region + 2)
      | NegativeZ \<Rightarrow> nat (upperZ region - lowerZ region + 2))"

text \<open>The faces in the order of the enumeration, as the loop over \<^verbatim>\<open>uFace\<close> visits them.\<close>

definition allFaces :: "FaceNames list" where
  "allFaces = [PositiveX, PositiveY, PositiveZ, NegativeX, NegativeY, NegativeZ]"

definition triangulateList :: "bool \<Rightarrow> FaceNames \<Rightarrow> nat \<Rightarrow> 'v ExtractState \<Rightarrow> 'v ExtractState" where
  "triangulateList bMergeQuads face sliceNo st =
     (let listQuads = (if bMergeQuads
                       then mergeUntilStable (m_vecQuads st ! faceIndex face ! sliceNo) (result st)
                       else m_vecQuads st ! faceIndex face ! sliceNo)
      in st\<lparr>result := fold addQuadTriangles listQuads (result st),
            m_vecQuads := (m_vecQuads st)
              [faceIndex face := (m_vecQuads st ! faceIndex face)[sliceNo := listQuads]]\<rparr>)"

definition triangulate :: "Region \<Rightarrow> bool \<Rightarrow> 'v ExtractState \<Rightarrow> 'v ExtractState" where
  "triangulate region bMergeQuads st =
     fold (\<lambda>face st. fold (triangulateList bMergeQuads face)
                       [0..<length (m_vecQuads st ! faceIndex face)] st)
       allFaces st"

section \<open>The extractor\<close>

text \<open>
  \<open>runExtraction\<close> is \<^verbatim>\<open>extractCubicMeshCustom\<close> from \<^verbatim>\<open>result->clear()\<close> to the end of
  the triangulation; it keeps the quad lists, which are local to the extractor, so that the
  quads that survive merging can be counted. \<^verbatim>\<open>extractCubicMeshCustom\<close> starts with the
  three size checks, which throw before the mesh is touched, and ends with the offset and
  the removal of the unused vertices.
\<close>

definition runExtraction ::
  "'v Volume \<Rightarrow> Region \<Rightarrow> 'v Mesh \<Rightarrow> ('v \<Rightarrow> 'v \<Rightarrow> 'v option) \<Rightarrow> ('v \<Rightarrow> bool) \<Rightarrow> bool
     \<Rightarrow> ('v, 'v ExtractState) outcome" where
  "runExtraction volData region res isQuadNeeded contributeToAO bMergeQuads =
     (case sweep volData region isQuadNeeded contributeToAO
             \<lparr>result = Mesh_clear res, m_previousSliceVertices = emptySlice,
              m_currentSliceVertices = emptySlice,
              m_vecQuads = map (\<lambda>face. replicate (vecQuadsSize region face) []) allFaces\<rparr> of
        Inl e \<Rightarrow> Inl e
      | Inr st \<Rightarrow> Inr (triangulate region bMergeQuads st))"

definition maxReionDimensionInVoxels :: int where
  "maxReionDimensionInVoxels = 255"

definition extractCubicMeshCustom ::
  "'v Volume \<Rightarrow> Region \<Rightarrow> 'v Mesh \<Rightarrow> ('v \<Rightarrow> 'v \<Rightarrow> 'v option) \<Rightarrow> ('v \<Rightarrow> bool) \<Rightarrow> bool
     \<Rightarrow> ('v, 'v Mesh) outcome" where
  "extractCubicMeshCustom volData region res isQuadNeeded contributeToAO bMergeQuads =
     (if getWidthInVoxels region > maxReionDimensionInVoxels then Inl (RegionTooLargeToEncode, res)
      else if getHeightInVoxels region > maxReionDimensionInVoxels then Inl (RegionTooLargeToEncode, res)
      else if getDepthInVoxels region > maxReionDimensionInVoxels then Inl (RegionTooLargeToEncode, res)
      else
        (case runExtraction volData region res isQuadNeeded contributeToAO bMergeQuads of
           Inl e \<Rightarrow> Inl e
         | Inr st \<Rightarrow> Inr (removeUnusedVertices (setOffset (getLowerCorner region) (result st)))))"


text \<open>
  The scenario of a binary volume: a voxel is a number, 0 is empty. A quad is needed
  between a solid voxel and an empty one and carries the solid voxel as material; solid
  voxels occlude.
\<close>

definition solidEmptyIsQuadNeeded :: "nat \<Rightarrow> nat \<Rightarrow> nat option" where
  "solidEmptyIsQuadNeeded back front = (if back > 0 \<and> front = 0 then Some back else None)"

definition solidContributesToAO :: "nat \<Rightarrow> bool" where
  "solidContributesToAO v = (v > 0)"

definition singleVoxelVolume :: "int \<times> int \<times> int \<Rightarrow> nat Volume" where
  "singleVoxelVolume p = (\<lambda>q. if q = p then 1 else 0)"

definition wholeVolume3 :: Region where
  "wholeVolume3 = \<lparr>lowerX = 0, lowerY = 0, lowerZ = 0, upperX = 2, upperY = 2, upperZ = 2\<rparr>"

definition emptyMesh :: "'v Mesh" where
  "emptyMesh = \<lparr>m_vecVertices = [], m_vecIndices = [], m_offset = (0, 0, 0)\<rparr>"

section \<open>Notions used to state the claims\<close>

text \<open>
  A slot rejects a request when it is occupied and its material or its ambient occlusion
  differs from the requested one: these are the slots \<^verbatim>\<open>addVertex\<close> steps over.
\<close>

definition slotRejects :: "'v SliceBuffer \<Rightarrow> nat \<Rightarrow> nat \<Rightarrow> 'v \<Rightarrow> 8 word \<Rightarrow> nat \<Rightarrow> bool" where
  "slotRejects existingVertices uX uY uMaterialIn ao ct =
     (case existingVertices (uX, uY, ct) of
        None \<Rightarrow> False
      | Some (iIndex, uMaterial, slotAO) \<Rightarrow> \<not> (uMaterial = uMaterialIn \<and> slotAO = ao))"

definition newCubicVertex :: "nat \<Rightarrow> nat \<Rightarrow> nat \<Rightarrow> 'v \<Rightarrow> 8 word \<Rightarrow> 'v CubicVertex" where
  "newCubicVertex uX uY uZ uMaterialIn ao =
     \<lparr>encodedPosition = (of_nat uX, of_nat uY, of_nat uZ), data = uMaterialIn, ambientOcclusion = ao\<rparr>"

section \<open>Claims about the ambient-occlusion function\<close>

text \<open>
  Claim C6. For all booleans \<open>side1\<close>, \<open>side2\<close> and \<open>corner\<close>, the ambient-occlusion
  function returns 0 when both sides are set and \<open>3 - (side1 + side2 + corner)\<close> otherwise,
  and the returned byte, read as an unsigned number, lies between 0 and 3: the conversion
  to \<^verbatim>\<open>uint8_t\<close> never wraps.
\<close>

theorem C6_vertexAmbientOcclusion_value_and_range:
  "uint (vertexAmbientOcclusion side1 side2 corner) =
     (if side1 \<and> side2 then 0 else 3 - (of_bool side1 + of_bool side2 + of_bool corner))
   \<and> 0 \<le> uint (vertexAmbientOcclusion side1 side2 corner)
   \<and> uint (vertexAmbientOcclusion side1 side2 corner) \<le> 3"
  by (cases side1; cases side2; cases corner) (simp_all add: vertexAmbientOcclusion_def)

lemma addVertex_probe_all_reject:
  "(\<forall>ct \<in> set cts. slotRejects ex uX uY mat ao ct)
   \<longleftrightarrow> addVertex_probe cts uX uY uZ mat ao ex m = Inl VertexSlotExhausted"
  by (induction cts) (auto simp: slotRejects_def Mesh_addVertex_def split: option.splits)

lemma addVertex_probe_skip:
  "\<forall>ct \<in> set pre. slotRejects ex uX uY mat ao ct \<Longrightarrow>
   addVertex_probe (pre @ cts) uX uY uZ mat ao ex m = addVertex_probe cts uX uY uZ mat ao ex m"
  by (induction pre) (auto simp: slotRejects_def split: option.splits)

lemma upt_split_at: "ct < n \<Longrightarrow> [0..<n] = [0..<ct] @ ct # [Suc ct..<n]"
proof -
  assume "ct < n"
  then have "[0..<n] = [0..<ct] @ [ct..<n]"
    using upt_add_eq_append [of 0 ct "n - ct"] by simp
  with \<open>ct < n\<close> show ?thesis
    by (simp add: upt_conv_Cons)
qed

lemma addVertex_at:
  assumes "ct < MaxVerticesPerPosition" and "\<forall>k<ct. slotRejects ex uX uY mat ao k"
  shows "addVertex_probe [0..<MaxVerticesPerPosition] uX uY uZ mat ao ex m
         = addVertex_probe (ct # [Suc ct..<MaxVerticesPerPosition]) uX uY uZ mat ao ex m"
proof -
  have "[0..<MaxVerticesPerPosition] = [0..<ct] @ ct # [Suc ct..<MaxVerticesPerPosition]"
    using assms(1) by (rule upt_split_at)
  moreover have "\<forall>k \<in> set [0..<ct]. slotRejects ex uX uY mat ao k"
    using assms(2) by simp
  ultimately show ?thesis
    by (simp add: addVertex_probe_skip del: addVertex_probe.simps)
qed

section \<open>Claims about vertex deduplication\<close>

text \<open>
  Claim C4. \<^verbatim>\<open>addVertex\<close> probes the eight slots of the column \<open>(uX, uY)\<close> in order.
  If the first slot that does not reject the request is occupied (so it matches the material
  and the ambient occlusion), its stored index is returned and neither the buffer nor the
  mesh changes. If it is empty, exactly one vertex with the given position, material and
  ambient occlusion is appended to the mesh, recorded in that slot, and its index returned.
  The error \<open>VertexSlotExhausted\<close> is raised if and only if all eight slots are occupied
  and none matches. Positions below 256 are stored unchanged by the conversion to a byte.
\<close>

theorem C4_addVertex_probe_order:
  fixes existingVertices :: "'v SliceBuffer" and m :: "'v Mesh"
  shows
  "let ao = vertexAmbientOcclusion (contributeToAO face1) (contributeToAO face2) (contributeToAO corner);
       rejects = slotRejects existingVertices uX uY uMaterialIn ao;
       r = addVertex uX uY uZ uMaterialIn existingVertices m face1 face2 corner contributeToAO;
       n = length (m_vecVertices m)
   in (\<forall>ct iIndex. ct < 8 \<and> (\<forall>k<ct. rejects k)
          \<and> existingVertices (uX, uY, ct) = Some (iIndex, uMaterialIn, ao)
          \<longrightarrow> r = Inr (iIndex, existingVertices, m))
    \<and> (\<forall>ct. ct < 8 \<and> (\<forall>k<ct. rejects k) \<and> existingVertices (uX, uY, ct) = None
          \<longrightarrow> r = Inr (n, existingVertices((uX, uY, ct) := Some (n, uMaterialIn, ao)),
                       m\<lparr>m_vecVertices := m_vecVertices m @ [newCubicVertex uX uY uZ uMaterialIn ao]\<rparr>))
    \<and> (r = Inl VertexSlotExhausted \<longleftrightarrow> (\<forall>ct<8. rejects ct))
    \<and> (uX < 256 \<and> uY < 256 \<and> uZ < 256
          \<longrightarrow> (case encodedPosition (newCubicVertex uX uY uZ uMaterialIn ao) of
                 (x, y, z) \<Rightarrow> (unat x, unat y, unat z)) = (uX, uY, uZ))"
proof -
  define ao where "ao = vertexAmbientOcclusion (contributeToAO face1) (contributeToAO face2) (contributeToAO corner)"
  define r where "r = addVertex uX uY uZ uMaterialIn existingVertices m face1 face2 corner contributeToAO"
  have r: "r = addVertex_probe [0..<MaxVerticesPerPosition] uX uY uZ uMaterialIn ao existingVertices m"
    by (simp add: r_def ao_def addVertex_def)
  have hit: "r = Inr (iIndex, existingVertices, m)"
    if "ct < 8" "\<forall>k<ct. slotRejects existingVertices uX uY uMaterialIn ao k"
       "existingVertices (uX, uY, ct) = Some (iIndex, uMaterialIn, ao)" for ct iIndex
    using that addVertex_at [of ct existingVertices uX uY uMaterialIn ao uZ m]
    by (simp add: r MaxVerticesPerPosition_def)
  have fresh: "r = Inr (length (m_vecVertices m),
                        existingVertices((uX, uY, ct) := Some (length (m_vecVertices m), uMaterialIn, ao)),
                        m\<lparr>m_vecVertices := m_vecVertices m @ [newCubicVertex uX uY uZ uMaterialIn ao]\<rparr>)"
    if "ct < 8" "\<forall>k<ct. slotRejects existingVertices uX uY uMaterialIn ao k"
       "existingVertices (uX, uY, ct) = None" for ct
    using that addVertex_at [of ct existingVertices uX uY uMaterialIn ao uZ m]
    by (simp add: r MaxVerticesPerPosition_def Mesh_addVertex_def newCubicVertex_def)
  have full: "r = Inl VertexSlotExhausted \<longleftrightarrow> (\<forall>ct<8. slotRejects existingVertices uX uY uMaterialIn ao ct)"
    using addVertex_probe_all_reject [of "[0..<MaxVerticesPerPosition]" existingVertices uX uY uMaterialIn ao uZ m]
    by (auto simp: r MaxVerticesPerPosition_def)
  have pos: "(case encodedPosition (newCubicVertex uX uY uZ uMaterialIn ao) of
                 (x, y, z) \<Rightarrow> (unat x, unat y, unat z)) = (uX, uY, uZ)"
    if "uX < 256 \<and> uY < 256 \<and> uZ < 256"
    using that by (simp add: newCubicVertex_def unat_of_nat)
  show ?thesis
    unfolding Let_def ao_def [symmetric] r_def [symmetric]
    using hit fresh full pos by blast
qed

theorem C4_addVertex_probe_order_witness:
  "addVertex 0 0 0 (7::nat) ((\<lambda>_. None)((0, 0, 0) := Some (5, 7, 3)))
       \<lparr>m_vecVertices = [], m_vecIndices = [], m_offset = (0, 0, 0)\<rparr> 0 0 0 (\<lambda>v. v \<noteq> 0)
     = Inr (5, (\<lambda>_. None)((0, 0, 0) := Some (5, 7, 3)),
            \<lparr>m_vecVertices = [], m_vecIndices = [], m_offset = (0, 0, 0)\<rparr>)
   \<and> addVertex 0 0 0 (9::nat) ((\<lambda>_. None)((0, 0, 0) := Some (5, 7, 3)))
       \<lparr>m_vecVertices = [], m_vecIndices = [], m_offset = (0, 0, 0)\<rparr> 0 0 0 (\<lambda>v. v \<noteq> 0)
     = Inr (0, (\<lambda>_. None)((0, 0, 0) := Some (5, 7, 3), (0, 0, 1) := Some (0, 9, 3)),
            \<lparr>m_vecVertices = [newCubicVertex 0 0 0 9 3], m_vecIndices = [], m_offset = (0, 0, 0)\<rparr>)
   \<and> addVertex 0 0 0 (2::nat) (\<lambda>(x, y, ct). Some (ct, 1, 3))
       \<lparr>m_vecVertices = [], m_vecIndices = [], m_offset = (0, 0, 0)\<rparr> 0 0 0 (\<lambda>v. v \<noteq> 0)
     = Inl VertexSlotExhausted
   \<and> (case encodedPosition (newCubicVertex 0 0 0 (9::nat) 3) of
         (x, y, z) \<Rightarrow> (unat x, unat y, unat z)) = (0, 0, 0)"
proof -
  let ?m = "\<lparr>m_vecVertices = [], m_vecIndices = [], m_offset = (0, 0, 0)\<rparr> :: nat Mesh"
  let ?E = "(\<lambda>_. None)((0, 0, 0) := Some (5, 7, 3)) :: nat SliceBuffer"
  let ?c = "\<lambda>v::nat. v \<noteq> 0"
  have ao: "vertexAmbientOcclusion (?c 0) (?c 0) (?c 0) = 3"
    by (simp add: vertexAmbientOcclusion_def)
  have "addVertex 0 0 0 7 ?E ?m 0 0 0 ?c = Inr (5, ?E, ?m)"
    using C4_addVertex_probe_order [of ?c 0 0 0 ?E 0 0 7 0 ?m]
    unfolding Let_def ao by (elim conjE allE [of _ 0] allE [of _ 5]) simp
  moreover have "addVertex 0 0 0 9 ?E ?m 0 0 0 ?c
      = Inr (0, ?E((0, 0, 1) := Some (0, 9, 3)), ?m\<lparr>m_vecVertices := [newCubicVertex 0 0 0 9 3]\<rparr>)"
    using C4_addVertex_probe_order [of ?c 0 0 0 ?E 0 0 9 0 ?m]
    unfolding Let_def ao by (elim conjE allE [of _ 1]) (simp add: slotRejects_def)
  moreover have "addVertex 0 0 0 2 (\<lambda>(x, y, ct). Some (ct, 1, 3)) ?m 0 0 0 ?c = Inl VertexSlotExhausted"
    using C4_addVertex_probe_order [of ?c 0 0 0 "\<lambda>(x, y, ct). Some (ct, 1, 3)" 0 0 2 0 ?m]
    unfolding Let_def ao by (simp add: slotRejects_def)
  moreover have "(case encodedPosition (newCubicVertex 0 0 0 (9::nat) 3) of
         (x, y, z) \<Rightarrow> (unat x, unat y, unat z)) = (0, 0, 0)"
    using C4_addVertex_probe_order [of ?c 0 0 0 ?E 0 0 9 0 ?m]
    unfolding Let_def ao by simp
  ultimately show ?thesis by simp
qed

section \<open>Claims about quad merging and triangulation\<close>

lemma merge_decision_cases:
  fixes A o1 o2 o3 o4 :: bool and r :: "Quad option"
  assumes "r = (if A then (if o1 then Some X1 else if o2 then Some X2
                           else if o3 then Some X3 else if o4 then Some X4 else None)
                else None)"
  shows "((r \<noteq> None) = (A \<and> (o1 \<or> o2 \<or> o3 \<or> o4)))
       \<and> r = (if A \<and> o1 then Some X1 else if A \<and> o2 then Some X2
              else if A \<and> o3 then Some X3 else if A \<and> o4 then Some X4 else None)"
  using assms by (cases A; cases o1; cases o2; cases o3; cases o4) simp_all

text \<open>
  Claim C7. \<^verbatim>\<open>mergeQuads\<close> merges \<open>q1\<close> and \<open>q2\<close> if and only if their four
  corresponding vertices have the same material and the same ambient occlusion and one of
  the four shared-edge conditions on the index arrays holds. On a merge the two shared
  corners of \<open>q1\<close> are replaced by the opposite corners of \<open>q2\<close>, according to the first
  condition that holds, and \<^verbatim>\<open>performQuadMerging\<close> erases \<open>q2\<close> from the list; when no
  condition holds both quads stay as they are.
\<close>

theorem C7_mergeQuads_iff_and_rewrite:
  "let same = (\<lambda>i j. data (getVertex m i) = data (getVertex m j)
                      \<and> ambientOcclusion (getVertex m i) = ambientOcclusion (getVertex m j));
       attrEq = (same (qv0 q1) (qv0 q2) \<and> same (qv1 q1) (qv1 q2)
                 \<and> same (qv2 q1) (qv2 q2) \<and> same (qv3 q1) (qv3 q2));
       o1 = (qv0 q1 = qv1 q2 \<and> qv3 q1 = qv2 q2);
       o2 = (qv3 q1 = qv0 q2 \<and> qv2 q1 = qv1 q2);
       o3 = (qv1 q1 = qv0 q2 \<and> qv2 q1 = qv3 q2);
       o4 = (qv0 q1 = qv3 q2 \<and> qv1 q1 = qv2 q2)
   in ((mergeQuads q1 q2 m \<noteq> None) = (attrEq \<and> (o1 \<or> o2 \<or> o3 \<or> o4)))
    \<and> mergeQuads q1 q2 m =
        (if attrEq \<and> o1 then Some (Quad (qv0 q2) (qv1 q1) (qv2 q1) (qv3 q2))
         else if attrEq \<and> o2 then Some (Quad (qv0 q1) (qv1 q1) (qv2 q2) (qv3 q2))
         else if attrEq \<and> o3 then Some (Quad (qv0 q1) (qv1 q2) (qv2 q2) (qv3 q1))
         else if attrEq \<and> o4 then Some (Quad (qv0 q2) (qv1 q2) (qv2 q1) (qv3 q1))
         else None)
    \<and> performQuadMerging [q1, q2] m =
        (case mergeQuads q1 q2 m of Some q1' \<Rightarrow> ([q1'], True) | None \<Rightarrow> ([q1, q2], False))
    \<and> mergeInto q1 (q2 # rest) m =
        (case mergeQuads q1 q2 m of
           Some q1' \<Rightarrow> (fst (mergeInto q1' rest m), fst (snd (mergeInto q1' rest m)), True)
         | None \<Rightarrow> (fst (mergeInto q1 rest m), q2 # fst (snd (mergeInto q1 rest m)),
                     snd (snd (mergeInto q1 rest m))))"
proof -
  have merged: "mergeInto q1 (q2 # rest) m =
        (case mergeQuads q1 q2 m of
           Some q1' \<Rightarrow> (fst (mergeInto q1' rest m), fst (snd (mergeInto q1' rest m)), True)
         | None \<Rightarrow> (fst (mergeInto q1 rest m), q2 # fst (snd (mergeInto q1 rest m)),
                     snd (snd (mergeInto q1 rest m))))"
    by (cases "mergeQuads q1 q2 m") (simp_all split: prod.splits)
  have pair: "performQuadMerging [q1, q2] m =
        (case mergeQuads q1 q2 m of Some q1' \<Rightarrow> ([q1'], True) | None \<Rightarrow> ([q1, q2], False))"
    by (cases "mergeQuads q1 q2 m") simp_all
  note decision = merge_decision_cases [OF mergeQuads_def [of q1 q2 m, unfolded isSameVertex_def]]
  show ?thesis
    unfolding Let_def using decision pair merged by blast
qed

text \<open>
  Claim C1 says that every quad yields exactly two triangles. The loop body adds the two
  triangles chosen by the diagonal rule and then a third one, \<open>(0, 2, 3)\<close>, for every quad:
  nine indices are appended, and in the second branch the third triangle repeats the
  second.
\<close>

theorem C1_quad_emits_three_triangles:
  "m_vecIndices (addQuadTriangles quad m) =
     m_vecIndices m
     @ (if unat (ambientOcclusion (getVertex m (qv3 quad))) + unat (ambientOcclusion (getVertex m (qv1 quad)))
            > unat (ambientOcclusion (getVertex m (qv0 quad))) + unat (ambientOcclusion (getVertex m (qv2 quad)))
        then [qv1 quad, qv2 quad, qv3 quad] @ [qv1 quad, qv3 quad, qv0 quad]
        else [qv0 quad, qv1 quad, qv2 quad] @ [qv0 quad, qv2 quad, qv3 quad])
     @ [qv0 quad, qv2 quad, qv3 quad]
   \<and> length (m_vecIndices (addQuadTriangles quad m)) = length (m_vecIndices m) + 3 * 3"
  by (simp add: addQuadTriangles_def Mesh_addTriangle_def getVertex_def Let_def)

section \<open>Errors of the sweep\<close>

lemma addVertex_probe_error:
  "addVertex_probe cts uX uY uZ mat ao ex m = Inl e \<Longrightarrow> e = VertexSlotExhausted"
  by (induction cts) (auto simp: Mesh_addVertex_def split: option.splits if_splits)

lemma addVertexIn_error:
  "addVertexIn mat cAO req st = Inl (e, m) \<Longrightarrow> e = VertexSlotExhausted"
  by (auto simp: addVertexIn_def addVertex_def split: prod.splits SliceSel.splits sum.splits
           dest: addVertex_probe_error)

lemma addVertices_error:
  "addVertices mat cAO reqs st = Inl (e, m) \<Longrightarrow> e = VertexSlotExhausted"
proof (induction reqs arbitrary: st)
  case Nil
  then show ?case by simp
next
  case (Cons req reqs)
  then show ?case
    by (auto split: sum.splits prod.splits dest: addVertexIn_error)
qed

lemma emitFace_error:
  "emitFace cAO blk st = Inl (e, m) \<Longrightarrow> e = VertexSlotExhausted"
  by (auto simp: emitFace_def split: prod.splits option.splits sum.splits dest: addVertices_error)

lemma forM_error:
  assumes "forM xs body s = Inl e" and "\<And>x s e. body x s = Inl e \<Longrightarrow> P e"
  shows "P e"
  using assms(1)
proof (induction xs arbitrary: s)
  case Nil
  then show ?case by simp
next
  case (Cons x xs)
  then show ?case
    by (auto split: sum.splits dest: assms(2))
qed

lemma processVoxel_error:
  assumes "processVoxel volData region isQ cAO x y z st = Inl (e, m)"
  shows "e = VertexSlotExhausted"
proof -
  from assms have "fst (e, m) = VertexSlotExhausted"
    unfolding processVoxel_def
    by (rule forM_error) (auto dest: emitFace_error)
  then show ?thesis by simp
qed

lemma sweepSlice_error:
  assumes "sweepSlice volData region isQ cAO z st = Inl (e, m)"
  shows "e = VertexSlotExhausted"
proof -
  have row: "fst em = VertexSlotExhausted"
    if "forM [lowerX region..upperX region] (\<lambda>x. processVoxel volData region isQ cAO x y z) s = Inl em"
    for y s em
    using that
    by (rule forM_error) (auto dest: processVoxel_error)
  from assms have "forM [lowerY region..upperY region]
             (\<lambda>y. forM [lowerX region..upperX region]
                    (\<lambda>x. processVoxel volData region isQ cAO x y z)) st = Inl (e, m)"
    by (auto simp: sweepSlice_def split: sum.splits)
  then have "fst (e, m) = VertexSlotExhausted"
    by (rule forM_error) (rule row)
  then show ?thesis by simp
qed

lemma sweep_error:
  assumes "sweep volData region isQ cAO st = Inl (e, m)"
  shows "e = VertexSlotExhausted"
proof -
  from assms have "fst (e, m) = VertexSlotExhausted"
    unfolding sweep_def
    by (rule forM_error) (auto dest: sweepSlice_error)
  then show ?thesis by simp
qed

lemma runExtraction_error:
  "runExtraction volData region res isQ cAO b = Inl (e, m) \<Longrightarrow> e = VertexSlotExhausted"
  by (auto simp: runExtraction_def split: sum.splits dest: sweep_error)

section \<open>Claims about the extractor as a whole\<close>

text \<open>
  Claim C3. If the width, the height or the depth of the region exceeds 255 voxels, the
  extraction raises \<open>RegionTooLargeToEncode\<close> and the mesh handed in is unchanged when the
  error is raised; if all three are at most 255, this error is not raised.
\<close>

theorem C3_region_size_check:
  "(getWidthInVoxels region > 255 \<or> getHeightInVoxels region > 255 \<or> getDepthInVoxels region > 255
      \<longrightarrow> extractCubicMeshCustom volData region res isQuadNeeded contributeToAO bMergeQuads
            = Inl (RegionTooLargeToEncode, res))
   \<and> (getWidthInVoxels region \<le> 255 \<and> getHeightInVoxels region \<le> 255 \<and> getDepthInVoxels region \<le> 255
      \<longrightarrow> (\<forall>m. extractCubicMeshCustom volData region res isQuadNeeded contributeToAO bMergeQuads
               \<noteq> Inl (RegionTooLargeToEncode, m)))"
proof (intro conjI impI allI)
  assume "getWidthInVoxels region > 255 \<or> getHeightInVoxels region > 255 \<or> getDepthInVoxels region > 255"
  then show "extractCubicMeshCustom volData region res isQuadNeeded contributeToAO bMergeQuads
            = Inl (RegionTooLargeToEncode, res)"
    by (auto simp: extractCubicMeshCustom_def maxReionDimensionInVoxels_def)
next
  fix m
  assume small: "getWidthInVoxels region \<le> 255 \<and> getHeightInVoxels region \<le> 255
                 \<and> getDepthInVoxels region \<le> 255"
  show "extractCubicMeshCustom volData region res isQuadNeeded contributeToAO bMergeQuads
               \<noteq> Inl (RegionTooLargeToEncode, m)"
  proof
    assume "extractCubicMeshCustom volData region res isQuadNeeded contributeToAO bMergeQuads
               = Inl (RegionTooLargeToEncode, m)"
    with small have "runExtraction volData region res isQuadNeeded contributeToAO bMergeQuads
               = Inl (RegionTooLargeToEncode, m)"
      by (auto simp: extractCubicMeshCustom_def maxReionDimensionInVoxels_def split: sum.splits)
    then have "RegionTooLargeToEncode = VertexSlotExhausted"
      by (rule runExtraction_error)
    then show False by simp
  qed
qed

theorem C3_region_size_check_witness:
  "extractCubicMeshCustom (singleVoxelVolume (0, 0, 0))
       \<lparr>lowerX = 0, lowerY = 0, lowerZ = 0, upperX = 255, upperY = 2, upperZ = 2\<rparr>
       emptyMesh solidEmptyIsQuadNeeded solidContributesToAO False
     = Inl (RegionTooLargeToEncode, emptyMesh)
   \<and> extractCubicMeshCustom (singleVoxelVolume (0, 0, 0)) wholeVolume3
       emptyMesh solidEmptyIsQuadNeeded solidContributesToAO False
     \<noteq> Inl (RegionTooLargeToEncode, emptyMesh)"
proof -
  let ?big = "\<lparr>lowerX = 0, lowerY = 0, lowerZ = 0, upperX = 255, upperY = 2, upperZ = 2\<rparr>"
  have "getWidthInVoxels ?big > 255"
    by (simp add: getWidthInVoxels_def)
  moreover have "getWidthInVoxels wholeVolume3 \<le> 255 \<and> getHeightInVoxels wholeVolume3 \<le> 255
                 \<and> getDepthInVoxels wholeVolume3 \<le> 255"
    by (simp add: getWidthInVoxels_def getHeightInVoxels_def getDepthInVoxels_def wholeVolume3_def)
  ultimately show ?thesis
    using C3_region_size_check [of ?big "singleVoxelVolume (0, 0, 0)" emptyMesh
            solidEmptyIsQuadNeeded solidContributesToAO False]
          C3_region_size_check [of wholeVolume3 "singleVoxelVolume (0, 0, 0)" emptyMesh
            solidEmptyIsQuadNeeded solidContributesToAO False]
    by blast
qed

section \<open>The single solid voxel\<close>


lemma singleVoxel_mesh:
  "p = (0, 0, 0) \<or> p = (1, 1, 1) \<Longrightarrow>
   (case extractCubicMeshCustom (singleVoxelVolume p) wholeVolume3 emptyMesh
           solidEmptyIsQuadNeeded solidContributesToAO bMergeQuads of
      Inr m \<Rightarrow> (map ambientOcclusion (m_vecVertices m), length (m_vecIndices m))
    | Inl e \<Rightarrow> ([], 0)) = (replicate 8 3, 54)"
proof (cases bMergeQuads)
  case True
  then have b: "bMergeQuads = True" by simp
  assume "p = (0, 0, 0) \<or> p = (1, 1, 1)"
  then show ?thesis unfolding b by (elim disjE; hypsubst) code_simp+
next
  case False
  then have b: "bMergeQuads = False" by simp
  assume "p = (0, 0, 0) \<or> p = (1, 1, 1)"
  then show ?thesis unfolding b by (elim disjE; hypsubst) code_simp+
qed



section \<open>The vertex table during the sweep\<close>

text \<open>
  The invariant behind the deduplication. \<open>recorded buf Z vs\<close> says that the buffer
  \<open>buf\<close> is a faithful account of the vertices of \<open>vs\<close> on the lattice plane \<open>Z\<close>: an
  occupied slot of the column \<open>(X, Y)\<close> holds the index of a vertex at \<open>(X, Y, Z)\<close> with the
  slot's material and ambient occlusion, the occupied slots of a column come first, and
  every vertex of the plane is held by some slot.
\<close>

definition zc :: "'v CubicVertex \<Rightarrow> 8 word" where
  "zc v = snd (snd (encodedPosition v))"

definition recorded :: "'v SliceBuffer \<Rightarrow> nat \<Rightarrow> 'v CubicVertex list \<Rightarrow> bool" where
  "recorded buf Z vs \<longleftrightarrow>
     (\<forall>X Y ct i m a. buf (X, Y, ct) = Some (i, m, a) \<longrightarrow>
        X < 256 \<and> Y < 256 \<and> i < length vs \<and> vs ! i = newCubicVertex X Y Z m a)
   \<and> (\<forall>X Y ct ct'. buf (X, Y, ct) = None \<and> ct \<le> ct' \<longrightarrow> buf (X, Y, ct') = None)
   \<and> (\<forall>i < length vs. zc (vs ! i) = of_nat Z \<longrightarrow>
        (\<exists>X Y ct. buf (X, Y, ct) = Some (i, data (vs ! i), ambientOcclusion (vs ! i))))"

definition vertexTableOk :: "'v CubicVertex list \<Rightarrow> bool" where
  "vertexTableOk vs \<longleftrightarrow>
     distinct vs \<and> (\<forall>p. length (filter (\<lambda>v. encodedPosition v = p) vs) \<le> 8)"

lemma of_nat_byte_inj:
  "X < 256 \<Longrightarrow> X' < 256 \<Longrightarrow> (of_nat X :: 8 word) = of_nat X' \<Longrightarrow> X = X'"
proof -
  assume "X < 256" and "X' < 256" and eq: "(of_nat X :: 8 word) = of_nat X'"
  from eq have "unat (of_nat X :: 8 word) = unat (of_nat X' :: 8 word)"
    by simp
  with \<open>X < 256\<close> \<open>X' < 256\<close> show ?thesis
    by (simp add: unat_of_nat)
qed

lemma newCubicVertex_eq_iff:
  "X < 256 \<Longrightarrow> Y < 256 \<Longrightarrow> X' < 256 \<Longrightarrow> Y' < 256 \<Longrightarrow>
   newCubicVertex X Y Z m a = newCubicVertex X' Y' Z m' a' \<longleftrightarrow> X = X' \<and> Y = Y' \<and> m = m' \<and> a = a'"
  by (auto simp: newCubicVertex_def dest: of_nat_byte_inj)

lemma newCubicVertex_fields [simp]:
  "encodedPosition (newCubicVertex X Y Z m a) = (of_nat X, of_nat Y, of_nat Z)"
  "data (newCubicVertex X Y Z m a) = m"
  "ambientOcclusion (newCubicVertex X Y Z m a) = a"
  "zc (newCubicVertex X Y Z m a) = of_nat Z"
  by (simp_all add: newCubicVertex_def zc_def)

text \<open>What a successful call of the probe did.\<close>

lemma addVertex_probe_Inr:
  assumes "addVertex_probe cts uX uY uZ mat ao buf m = Inr (i, buf', m')"
  shows "\<exists>pre ct post. cts = pre @ ct # post
           \<and> (\<forall>k \<in> set pre. slotRejects buf uX uY mat ao k)
           \<and> ((buf (uX, uY, ct) = Some (i, mat, ao) \<and> buf' = buf \<and> m' = m)
              \<or> (buf (uX, uY, ct) = None \<and> i = length (m_vecVertices m)
                 \<and> buf' = buf((uX, uY, ct) := Some (i, mat, ao))
                 \<and> m' = m\<lparr>m_vecVertices := m_vecVertices m @ [newCubicVertex uX uY uZ mat ao]\<rparr>))"
  using assms
proof (induction cts)
  case Nil
  then show ?case by simp
next
  case (Cons ct cts)
  show ?case
  proof (cases "slotRejects buf uX uY mat ao ct")
    case True
    with Cons.prems have "addVertex_probe cts uX uY uZ mat ao buf m = Inr (i, buf', m')"
      by (auto simp: slotRejects_def split: option.splits)
    from Cons.IH [OF this] obtain pre c post where
      "cts = pre @ c # post" "\<forall>k \<in> set pre. slotRejects buf uX uY mat ao k"
      "(buf (uX, uY, c) = Some (i, mat, ao) \<and> buf' = buf \<and> m' = m)
              \<or> (buf (uX, uY, c) = None \<and> i = length (m_vecVertices m)
                 \<and> buf' = buf((uX, uY, c) := Some (i, mat, ao))
                 \<and> m' = m\<lparr>m_vecVertices := m_vecVertices m @ [newCubicVertex uX uY uZ mat ao]\<rparr>)"
      by blast
    with True show ?thesis
      by - (rule exI [of _ "ct # pre"], rule exI [of _ c], rule exI [of _ post], fastforce)
  next
    case False
    with Cons.prems show ?thesis
      by - (rule exI [of _ "[]"], rule exI [of _ ct], rule exI [of _ cts],
            auto simp: slotRejects_def Mesh_addVertex_def newCubicVertex_def split: option.splits if_splits)
  qed
qed

lemma upt_split_prefix:
  assumes "[0..<n] = pre @ ct # post"
  shows "pre = [0..<ct] \<and> ct < n"
proof -
  have len: "length pre = ct"
  proof -
    have "[0..<n] ! length pre = ct" by (simp add: assms)
    moreover have "length pre < n"
      using arg_cong [OF assms, of length] by simp
    ultimately show ?thesis by simp
  qed
  have "ct < n"
    using arg_cong [OF assms, of length] len by simp
  moreover have "pre = take ct [0..<n]"
    using assms len by simp
  ultimately show ?thesis by (simp add: take_upt)
qed

lemma addVertex_Inr:
  assumes "addVertex uX uY uZ mat buf m face1 face2 corner cAO = Inr (i, buf', m')"
  obtains (hit) ct where "ct < 8" "buf (uX, uY, ct) \<noteq> None" "buf' = buf" "m' = m"
  | (fresh) ct ao where "ct < 8" "\<forall>k<ct. slotRejects buf uX uY mat ao k" "buf (uX, uY, ct) = None"
      "i = length (m_vecVertices m)" "buf' = buf((uX, uY, ct) := Some (i, mat, ao))"
      "m' = m\<lparr>m_vecVertices := m_vecVertices m @ [newCubicVertex uX uY uZ mat ao]\<rparr>"
proof -
  define ao where "ao = vertexAmbientOcclusion (cAO face1) (cAO face2) (cAO corner)"
  from assms have "addVertex_probe [0..<MaxVerticesPerPosition] uX uY uZ mat ao buf m = Inr (i, buf', m')"
    by (simp add: addVertex_def ao_def)
  from addVertex_probe_Inr [OF this] obtain pre ct post where
    split: "[0..<MaxVerticesPerPosition] = pre @ ct # post" and
    rej: "\<forall>k \<in> set pre. slotRejects buf uX uY mat ao k" and
    res: "(buf (uX, uY, ct) = Some (i, mat, ao) \<and> buf' = buf \<and> m' = m)
              \<or> (buf (uX, uY, ct) = None \<and> i = length (m_vecVertices m)
                 \<and> buf' = buf((uX, uY, ct) := Some (i, mat, ao))
                 \<and> m' = m\<lparr>m_vecVertices := m_vecVertices m @ [newCubicVertex uX uY uZ mat ao]\<rparr>)"
    by blast
  from upt_split_prefix [OF split] have pre: "pre = [0..<ct]" and ct: "ct < 8"
    by (simp_all add: MaxVerticesPerPosition_def)
  from rej pre have rej': "\<forall>k<ct. slotRejects buf uX uY mat ao k" by simp
  from res show thesis
  proof
    assume "buf (uX, uY, ct) = Some (i, mat, ao) \<and> buf' = buf \<and> m' = m"
    with ct show thesis by (intro hit [of ct]) auto
  next
    assume "buf (uX, uY, ct) = None \<and> i = length (m_vecVertices m)
                 \<and> buf' = buf((uX, uY, ct) := Some (i, mat, ao))
                 \<and> m' = m\<lparr>m_vecVertices := m_vecVertices m @ [newCubicVertex uX uY uZ mat ao]\<rparr>"
    with ct rej' show thesis by (intro fresh [of ct ao]) auto
  qed
qed

lemma recorded_append_other:
  assumes "recorded buf Z' vs" and "zc v \<noteq> of_nat Z'"
  shows "recorded buf Z' (vs @ [v])"
proof -
  have R1: "X < 256 \<and> Y < 256 \<and> i < length (vs @ [v]) \<and> (vs @ [v]) ! i = newCubicVertex X Y Z' m a"
    if "buf (X, Y, ct) = Some (i, m, a)" for X Y ct i m a
  proof -
    from that assms(1)
    have "X < 256 \<and> Y < 256 \<and> i < length vs \<and> vs ! i = newCubicVertex X Y Z' m a"
      unfolding recorded_def by blast
    then show ?thesis by (simp add: nth_append)
  qed
  have R2: "buf (X, Y, ct') = None" if "buf (X, Y, ct) = None \<and> ct \<le> ct'" for X Y ct ct'
    using that assms(1) unfolding recorded_def by blast
  have R3: "\<exists>X Y ct. buf (X, Y, ct)
      = Some (i, data ((vs @ [v]) ! i), ambientOcclusion ((vs @ [v]) ! i))"
    if i: "i < length (vs @ [v])" and z: "zc ((vs @ [v]) ! i) = of_nat Z'" for i
  proof -
  from z assms(2) have "i \<noteq> length vs" by auto
  with i have lt: "i < length vs" by simp
  with z have "zc (vs ! i) = of_nat Z'" by (simp add: nth_append)
  with assms(1) lt obtain X Y ct where
    "buf (X, Y, ct) = Some (i, data (vs ! i), ambientOcclusion (vs ! i))"
    unfolding recorded_def by blast
    with lt show ?thesis
      by (auto simp: nth_append)
  qed
  show ?thesis
    unfolding recorded_def using R1 R2 R3 by blast
qed

lemma recorded_add:
  assumes rec: "recorded buf Z vs"
    and empty: "buf (X, Y, ct0) = None"
    and before: "\<forall>k<ct0. buf (X, Y, k) \<noteq> None"
    and bounds: "X < 256" "Y < 256"
  shows "recorded (buf((X, Y, ct0) := Some (length vs, mat, ao))) Z (vs @ [newCubicVertex X Y Z mat ao])"
proof -
  let ?buf' = "buf((X, Y, ct0) := Some (length vs, mat, ao))"
  let ?vs' = "vs @ [newCubicVertex X Y Z mat ao]"
  have R1: "X' < 256 \<and> Y' < 256 \<and> i < length ?vs' \<and> ?vs' ! i = newCubicVertex X' Y' Z m a"
    if slot: "?buf' (X', Y', ct) = Some (i, m, a)" for X' Y' ct i m a
  proof (cases "(X', Y', ct) = (X, Y, ct0)")
    case True
    with slot bounds show ?thesis by auto
  next
    case False
    with slot have "buf (X', Y', ct) = Some (i, m, a)" by (simp split: if_splits)
    with rec have "X' < 256 \<and> Y' < 256 \<and> i < length vs \<and> vs ! i = newCubicVertex X' Y' Z m a"
      unfolding recorded_def by blast
    then show ?thesis by (simp add: nth_append)
  qed
  have R2: "?buf' (X', Y', ct') = None"
    if a: "?buf' (X', Y', ct) = None \<and> ct \<le> ct'" for X' Y' ct ct'
  proof -
  from a have none: "buf (X', Y', ct) = None" and ne: "(X', Y', ct) \<noteq> (X, Y, ct0)"
    by (auto split: if_splits)
  from none a rec have later: "buf (X', Y', ct') = None"
    unfolding recorded_def by blast
  have "(X', Y', ct') \<noteq> (X, Y, ct0)"
  proof
    assume eq: "(X', Y', ct') = (X, Y, ct0)"
    with a ne have "ct < ct0" by auto
    with before eq none show False by auto
  qed
  with later show ?thesis
    by simp
  qed
  have R3: "\<exists>X' Y' ct. ?buf' (X', Y', ct) = Some (i, data (?vs' ! i), ambientOcclusion (?vs' ! i))"
    if i: "i < length ?vs'" and z: "zc (?vs' ! i) = of_nat Z" for i
  proof (cases "i = length vs")
    case True
    then show ?thesis
      by (intro exI [of _ X] exI [of _ Y] exI [of _ ct0]) simp
  next
    case False
    with i have lt: "i < length vs" by simp
    with z have "zc (vs ! i) = of_nat Z" by (simp add: nth_append)
    with rec lt obtain X' Y' ct where
      s: "buf (X', Y', ct) = Some (i, data (vs ! i), ambientOcclusion (vs ! i))"
      unfolding recorded_def by blast
    with empty have "(X', Y', ct) \<noteq> (X, Y, ct0)" by auto
    with s lt show ?thesis
      by (intro exI [of _ X'] exI [of _ Y'] exI [of _ ct]) (simp add: nth_append)
  qed
  show ?thesis
    unfolding recorded_def using R1 R2 R3 by blast
qed

text \<open>Every vertex at the position of a column is held by one of the column's slots.\<close>

lemma recorded_column:
  assumes rec: "recorded buf Z vs"
    and i: "i < length vs" and pos: "encodedPosition (vs ! i) = (of_nat X, of_nat Y, of_nat Z)"
    and bounds: "X < 256" "Y < 256"
  shows "\<exists>ct. buf (X, Y, ct) = Some (i, data (vs ! i), ambientOcclusion (vs ! i))"
proof -
  from pos have "zc (vs ! i) = of_nat Z" by (simp add: zc_def)
  with rec i obtain X' Y' ct where
    s: "buf (X', Y', ct) = Some (i, data (vs ! i), ambientOcclusion (vs ! i))"
    unfolding recorded_def by blast
  with rec have b: "X' < 256" "Y' < 256"
    and v: "vs ! i = newCubicVertex X' Y' Z (data (vs ! i)) (ambientOcclusion (vs ! i))"
    unfolding recorded_def by blast+
  from v have "encodedPosition (vs ! i) = (of_nat X', of_nat Y', of_nat Z)"
    by (metis newCubicVertex_fields(1))
  with pos have "(of_nat X' :: 8 word) = of_nat X" "(of_nat Y' :: 8 word) = of_nat Y" by simp_all
  with b bounds have "X' = X" "Y' = Y" by (auto dest: of_nat_byte_inj)
  with s show ?thesis by blast
qed

lemma vertexTableOk_add:
  assumes ok: "vertexTableOk vs"
    and rec: "recorded buf Z vs"
    and empty: "buf (X, Y, ct0) = None"
    and ct0: "ct0 < 8"
    and rejects: "\<forall>k<ct0. slotRejects buf X Y mat ao k"
    and bounds: "X < 256" "Y < 256"
  shows "vertexTableOk (vs @ [newCubicVertex X Y Z mat ao])"
proof -
  let ?v = "newCubicVertex X Y Z mat ao"
  let ?p = "(of_nat X, of_nat Y, of_nat Z) :: 8 word \<times> 8 word \<times> 8 word"
  have below: "ct < ct0" if "buf (X, Y, ct) = Some s" for ct s
  proof (rule ccontr)
    assume "\<not> ct < ct0"
    then have "ct0 \<le> ct" by simp
    with empty rec have "buf (X, Y, ct) = None"
      unfolding recorded_def by blast
    with that show False by simp
  qed
  have fresh: "?v \<notin> set vs"
  proof
    assume "?v \<in> set vs"
    then obtain j where j: "j < length vs" and vj: "vs ! j = ?v"
      by (auto simp: in_set_conv_nth)
    from vj have "encodedPosition (vs ! j) = ?p" by simp
    from recorded_column [OF rec j this bounds] vj obtain ct where
      s: "buf (X, Y, ct) = Some (j, mat, ao)" by auto
    from below [OF s] rejects have "slotRejects buf X Y mat ao ct" by blast
    with s show False by (simp add: slotRejects_def)
  qed
  have count: "length (filter (\<lambda>v. encodedPosition v = ?p) vs) \<le> ct0"
  proof -
    let ?S = "{i. i < length vs \<and> encodedPosition (vs ! i) = ?p}"
    let ?r = "\<lambda>i ct. \<exists>m a. buf (X, Y, ct) = Some (i, m, a)"
    have "card ?S \<le> card {0..<ct0}"
    proof (rule card_le_if_inj_on_rel [where r = ?r])
      show "finite {0..<ct0}" by simp
    next
      fix i assume "i \<in> ?S"
      then have i: "i < length vs" and pos: "encodedPosition (vs ! i) = ?p" by auto
      from recorded_column [OF rec i pos bounds] obtain ct where
        s: "buf (X, Y, ct) = Some (i, data (vs ! i), ambientOcclusion (vs ! i))" by blast
      from below [OF s] s show "\<exists>b. b \<in> {0..<ct0} \<and> ?r i b" by auto
    next
      fix a1 a2 b
      assume "?r a1 b" and "?r a2 b"
      then show "a1 = a2" by auto
    qed
    then show ?thesis by (simp add: length_filter_conv_card)
  qed
  have "length (filter (\<lambda>v. encodedPosition v = p) (vs @ [?v])) \<le> 8" for p
  proof (cases "p = ?p")
    case True
    with count ct0 show ?thesis by simp
  next
    case False
    then have "encodedPosition ?v \<noteq> p" by auto
    moreover from ok have "length (filter (\<lambda>v. encodedPosition v = p) vs) \<le> 8"
      unfolding vertexTableOk_def by blast
    ultimately show ?thesis by simp
  qed
  with ok fresh show ?thesis by (simp add: vertexTableOk_def)
qed

text \<open>
  The invariant of the sweep while the slice \<open>z\<close> (relative to the region) is processed:
  the previous buffer accounts for the plane \<open>z\<close>, the current one for the plane \<open>z + 1\<close>,
  and no vertex lies beyond.
\<close>

definition sliceInv :: "nat \<Rightarrow> 'v ExtractState \<Rightarrow> bool" where
  "sliceInv z st \<longleftrightarrow>
     vertexTableOk (m_vecVertices (result st))
   \<and> (z + 1 < 256 \<longrightarrow>
        recorded (m_previousSliceVertices st) z (m_vecVertices (result st))
      \<and> recorded (m_currentSliceVertices st) (z + 1) (m_vecVertices (result st))
      \<and> (\<forall>v \<in> set (m_vecVertices (result st)). \<exists>Z \<le> z + 1. zc v = of_nat Z))"

definition requestOk :: "nat \<Rightarrow> 'v VertexRequest \<Rightarrow> bool" where
  "requestOk z req =
     (case req of ((uX, uY, uZ), sel, voxels) \<Rightarrow>
        uX < 256 \<and> uY < 256 \<and> (case sel of Previous \<Rightarrow> uZ = z | Current \<Rightarrow> uZ = z + 1))"

lemma plane_neq: "z + 1 < 256 \<Longrightarrow> (of_nat z :: 8 word) \<noteq> of_nat (z + 1)"
  by (auto dest: of_nat_byte_inj [rotated 2])

lemma rejects_occupied: "slotRejects buf X Y mat ao k \<Longrightarrow> buf (X, Y, k) \<noteq> None"
  by (cases "buf (X, Y, k)") (simp_all add: slotRejects_def)

lemma addVertexIn_sliceInv:
  assumes z: "z + 1 < 256" and inv: "sliceInv z st" and req: "requestOk z req"
    and run: "addVertexIn mat cAO req st = Inr (i, st')"
  shows "sliceInv z st'"
proof -
  obtain uX uY uZ sel face1 face2 corner where r: "req = ((uX, uY, uZ), sel, (face1, face2, corner))"
    by (cases req) auto
  let ?vs = "m_vecVertices (result st)"
  from inv z have ok: "vertexTableOk ?vs"
    and recP: "recorded (m_previousSliceVertices st) z ?vs"
    and recC: "recorded (m_currentSliceVertices st) (z + 1) ?vs"
    and lev: "\<forall>v \<in> set ?vs. \<exists>Z \<le> z + 1. zc v = of_nat Z"
    unfolding sliceInv_def by blast+
  from req r have bounds: "uX < 256" "uY < 256" by (simp_all add: requestOk_def)
  show ?thesis
  proof (cases sel)
    case Previous
    with req r have uZ: "uZ = z" by (simp add: requestOk_def)
    from run r Previous obtain buf' m' where
      add: "addVertex uX uY uZ mat (m_previousSliceVertices st) (result st) face1 face2 corner cAO
              = Inr (i, buf', m')"
      and st': "st' = st\<lparr>result := m', m_previousSliceVertices := buf'\<rparr>"
      by (auto simp: addVertexIn_def split: sum.splits)
    from add show ?thesis
    proof (cases rule: addVertex_Inr)
      case (hit ct)
      with st' have "st' = st" by simp
      with inv show ?thesis by simp
    next
      case (fresh ct ao)
      let ?v = "newCubicVertex uX uY z mat ao"
      from fresh uZ have vs': "m_vecVertices (result st') = ?vs @ [?v]"
        and P': "m_previousSliceVertices st' = (m_previousSliceVertices st)((uX, uY, ct) := Some (length ?vs, mat, ao))"
        and C': "m_currentSliceVertices st' = m_currentSliceVertices st"
        by (simp_all add: st')
      have "vertexTableOk (?vs @ [?v])"
        using ok recP fresh(3) fresh(1) fresh(2) bounds by (rule vertexTableOk_add)
      moreover have "recorded ((m_previousSliceVertices st)((uX, uY, ct) := Some (length ?vs, mat, ao))) z (?vs @ [?v])"
        using recP fresh(3) _ bounds
        by (rule recorded_add) (use fresh(2) in \<open>blast dest: rejects_occupied\<close>)
      moreover have "recorded (m_currentSliceVertices st) (z + 1) (?vs @ [?v])"
        using recC by (rule recorded_append_other) (use plane_neq [OF z] in simp)
      moreover have "\<forall>v \<in> set (?vs @ [?v]). \<exists>Z \<le> z + 1. zc v = of_nat Z"
        using lev by (auto intro: exI [of _ z])
      ultimately show ?thesis
        unfolding sliceInv_def vs' P' C' by blast
    qed
  next
    case Current
    with req r have uZ: "uZ = z + 1" by (simp add: requestOk_def)
    from run r Current obtain buf' m' where
      add: "addVertex uX uY uZ mat (m_currentSliceVertices st) (result st) face1 face2 corner cAO
              = Inr (i, buf', m')"
      and st': "st' = st\<lparr>result := m', m_currentSliceVertices := buf'\<rparr>"
      by (auto simp: addVertexIn_def split: sum.splits)
    from add show ?thesis
    proof (cases rule: addVertex_Inr)
      case (hit ct)
      with st' have "st' = st" by simp
      with inv show ?thesis by simp
    next
      case (fresh ct ao)
      let ?v = "newCubicVertex uX uY (z + 1) mat ao"
      from fresh uZ have vs': "m_vecVertices (result st') = ?vs @ [?v]"
        and C': "m_currentSliceVertices st' = (m_currentSliceVertices st)((uX, uY, ct) := Some (length ?vs, mat, ao))"
        and P': "m_previousSliceVertices st' = m_previousSliceVertices st"
        by (simp_all add: st')
      have "vertexTableOk (?vs @ [?v])"
        using ok recC fresh(3) fresh(1) fresh(2) bounds by (rule vertexTableOk_add)
      moreover have "recorded ((m_currentSliceVertices st)((uX, uY, ct) := Some (length ?vs, mat, ao))) (z + 1) (?vs @ [?v])"
        using recC fresh(3) _ bounds
        by (rule recorded_add) (use fresh(2) in \<open>blast dest: rejects_occupied\<close>)
      moreover have "recorded (m_previousSliceVertices st) z (?vs @ [?v])"
        using recP by (rule recorded_append_other) (use plane_neq [OF z] in simp)
      moreover have "\<forall>v \<in> set (?vs @ [?v]). \<exists>Z \<le> z + 1. zc v = of_nat Z"
        using lev by (auto intro: exI [of _ "z + 1"])
      ultimately show ?thesis
        unfolding sliceInv_def vs' P' C' by blast
    qed
  qed
qed

lemma addVertices_sliceInv:
  assumes "z + 1 < 256" and "sliceInv z st" and "\<forall>req \<in> set reqs. requestOk z req"
    and "addVertices mat cAO reqs st = Inr (is, st')"
  shows "sliceInv z st'"
  using assms(2-)
proof (induction reqs arbitrary: st "is")
  case Nil
  then show ?case by simp
next
  case (Cons req reqs)
  from Cons.prems(3) obtain i st1 is1 where
    one: "addVertexIn mat cAO req st = Inr (i, st1)" and
    rest: "addVertices mat cAO reqs st1 = Inr (is1, st')"
    by (auto split: sum.splits prod.splits)
  from Cons.prems have "requestOk z req" by simp
  with assms(1) Cons.prems(1) have "sliceInv z st1"
    using one by (rule addVertexIn_sliceInv)
  moreover from Cons.prems have "\<forall>req \<in> set reqs. requestOk z req" by simp
  ultimately show ?case using rest by (rule Cons.IH)
qed

lemma sliceInv_push_back [simp]: "sliceInv z (push_back face sliceNo q st) = sliceInv z st"
  by (simp add: sliceInv_def push_back_def)

lemma emitFace_sliceInv:
  assumes "z + 1 < 256" and "sliceInv z st"
    and "\<forall>req \<in> set (snd (snd (snd (snd blk)))). requestOk z req"
    and "emitFace cAO blk st = Inr st'"
  shows "sliceInv z st'"
proof -
  obtain needed face sliceNo reversed reqs where blk: "blk = (needed, face, sliceNo, reversed, reqs)"
    by (cases blk) auto
  show ?thesis
  proof (cases needed)
    case None
    with assms(4) blk have "st' = st" by (simp add: emitFace_def)
    with assms(2) show ?thesis by simp
  next
    case (Some mat)
    with assms(4) blk obtain "is" st1 where
      add: "addVertices mat cAO reqs st = Inr (is, st1)" and
      st': "st' = push_back face sliceNo
                    (if reversed then Quad (is ! 0) (is ! 3) (is ! 2) (is ! 1)
                     else Quad (is ! 0) (is ! 1) (is ! 2) (is ! 3)) st1"
      by (auto simp: emitFace_def split: sum.splits)
    from assms(3) blk have "\<forall>req \<in> set reqs. requestOk z req" by simp
    with assms(1,2) have "sliceInv z st1" using add by (rule addVertices_sliceInv)
    then show ?thesis by (simp add: st')
  qed
qed

lemma forM_invariant:
  assumes "forM xs body s = Inr s'" and "I s"
    and "\<And>x s s'. x \<in> set xs \<Longrightarrow> I s \<Longrightarrow> body x s = Inr s' \<Longrightarrow> I s'"
  shows "I s'"
  using assms
proof (induction xs arbitrary: s)
  case Nil
  then show ?case by simp
next
  case (Cons x xs)
  from Cons.prems(1) obtain s1 where one: "body x s = Inr s1" and rest: "forM xs body s1 = Inr s'"
    by (auto split: sum.splits)
  from Cons.prems(2) one have "I s1" by (rule Cons.prems(3) [of x, simplified])
  with rest show ?case
    by (rule Cons.IH) (rule Cons.prems(3), simp_all)
qed

lemma faceBlocks_requestOk:
  assumes "nat (x - lowerX region) + 1 < 256" and "nat (y - lowerY region) + 1 < 256"
    and "blk \<in> set (faceBlocks volData region isQ x y z)"
    and "req \<in> set (snd (snd (snd (snd blk))))"
  shows "requestOk (nat (z - lowerZ region)) req"
  using assms unfolding faceBlocks_def Let_def
  by (auto simp: requestOk_def)

lemma processVoxel_sliceInv:
  assumes "nat (z - lowerZ region) + 1 < 256"
    and "nat (x - lowerX region) + 1 < 256" and "nat (y - lowerY region) + 1 < 256"
    and "sliceInv (nat (z - lowerZ region)) st"
    and "processVoxel volData region isQ cAO x y z st = Inr st'"
  shows "sliceInv (nat (z - lowerZ region)) st'"
  using assms(5) [unfolded processVoxel_def] assms(4)
proof (rule forM_invariant)
  fix blk s s'
  assume "blk \<in> set (faceBlocks volData region isQ x y z)"
    and "sliceInv (nat (z - lowerZ region)) s" and "emitFace cAO blk s = Inr s'"
  with assms(1-3) show "sliceInv (nat (z - lowerZ region)) s'"
    by (intro emitFace_sliceInv [of _ s blk cAO s']) (auto intro: faceBlocks_requestOk)
qed

lemma recorded_emptySlice:
  assumes "\<forall>v \<in> set vs. zc v \<noteq> of_nat Z"
  shows "recorded emptySlice Z vs"
  using assms unfolding recorded_def emptySlice_def by simp

lemma finishSlice_sliceInv:
  assumes z: "z + 1 < 256" and inv: "sliceInv z st"
  shows "sliceInv (z + 1) (finishSlice st)"
proof -
  let ?vs = "m_vecVertices (result st)"
  from inv z have ok: "vertexTableOk ?vs"
    and recC: "recorded (m_currentSliceVertices st) (z + 1) ?vs"
    and lev: "\<forall>v \<in> set ?vs. \<exists>Z \<le> z + 1. zc v = of_nat Z"
    unfolding sliceInv_def by blast+
  have "recorded emptySlice (z + 1 + 1) ?vs" if z2: "z + 1 + 1 < 256"
  proof (rule recorded_emptySlice, rule ballI)
    fix v assume "v \<in> set ?vs"
    with lev obtain Z where Z: "Z \<le> z + 1" and zc: "zc v = of_nat Z" by blast
    show "zc v \<noteq> of_nat (z + 1 + 1)"
    proof
      assume "zc v = of_nat (z + 1 + 1)"
      with zc have "(of_nat Z :: 8 word) = of_nat (z + 1 + 1)" by simp
      with of_nat_byte_inj [of Z "z + 1 + 1"] Z z2 show False by simp
    qed
  qed
  moreover have "\<forall>v \<in> set ?vs. \<exists>Z \<le> z + 1 + 1. zc v = of_nat Z"
    using lev by (meson le_SucI Suc_eq_plus1 trans_le_add1)
  ultimately show ?thesis
    using ok recC unfolding sliceInv_def finishSlice_def by simp
qed

lemma upto_member_offset:
  assumes "u - l + 1 \<le> (255 :: int)" and "x \<in> set [l..u]"
  shows "nat (x - l) + 1 < 256"
  using assms by auto

lemma sweepSlice_sliceInv:
  assumes w: "getWidthInVoxels region \<le> 255" and h: "getHeightInVoxels region \<le> 255"
    and d: "getDepthInVoxels region \<le> 255"
    and z: "z \<in> set [lowerZ region..upperZ region]"
    and inv: "sliceInv (nat (z - lowerZ region)) st"
    and run: "sweepSlice volData region isQ cAO z st = Inr st'"
  shows "sliceInv (nat (z + 1 - lowerZ region)) st'"
proof -
  let ?z = "nat (z - lowerZ region)"
  from d z have zb: "?z + 1 < 256"
    unfolding getDepthInVoxels_def by (rule upto_member_offset)
  from run obtain st1 where
    rows: "forM [lowerY region..upperY region]
             (\<lambda>y. forM [lowerX region..upperX region]
                    (\<lambda>x. processVoxel volData region isQ cAO x y z)) st = Inr st1"
    and st': "st' = finishSlice st1"
    by (auto simp: sweepSlice_def split: sum.splits)
  from rows inv have "sliceInv ?z st1"
  proof (rule forM_invariant)
    fix y s s'
    assume y: "y \<in> set [lowerY region..upperY region]" and s: "sliceInv ?z s"
      and row: "forM [lowerX region..upperX region]
                  (\<lambda>x. processVoxel volData region isQ cAO x y z) s = Inr s'"
    from h y have yb: "nat (y - lowerY region) + 1 < 256"
      unfolding getHeightInVoxels_def by (rule upto_member_offset)
    from row s show "sliceInv ?z s'"
    proof (rule forM_invariant)
      fix x t t'
      assume x: "x \<in> set [lowerX region..upperX region]" and t: "sliceInv ?z t"
        and cell: "processVoxel volData region isQ cAO x y z t = Inr t'"
      from w x have xb: "nat (x - lowerX region) + 1 < 256"
        unfolding getWidthInVoxels_def by (rule upto_member_offset)
      from zb xb yb t cell show "sliceInv ?z t'"
        by (rule processVoxel_sliceInv)
    qed
  qed
  with zb have "sliceInv (?z + 1) (finishSlice st1)"
    by (rule finishSlice_sliceInv)
  moreover from z have "nat (z + 1 - lowerZ region) = ?z + 1"
    by auto
  ultimately show ?thesis by (simp add: st')
qed

lemma forM_upto_invariant:
  assumes "forM [l..u] body s = Inr s'" and "J l s"
    and "\<And>z s s'. z \<in> set [l..u] \<Longrightarrow> J z s \<Longrightarrow> body z s = Inr s' \<Longrightarrow> J (z + 1) s'"
  shows "\<exists>k. J k s'"
  using assms
proof (induction "nat (u + 1 - l)" arbitrary: l s)
  case 0
  then have "[l..u] = []" by simp
  with "0.prems" show ?case by auto
next
  case (Suc n)
  then have le: "l \<le> u" by simp
  then have unfold: "[l..u] = l # [l + 1..u]" by (rule upto_rec1)
  with Suc.prems(1) obtain s1 where one: "body l s = Inr s1"
    and rest: "forM [l + 1..u] body s1 = Inr s'"
    by (auto split: sum.splits)
  have J1: "J (l + 1) s1"
    using Suc.prems(2) one by (intro Suc.prems(3) [of l s s1]) (simp_all add: le)
  from Suc.hyps(2) have n: "n = nat (u + 1 - (l + 1))" by simp
  have step: "J (z + 1) t'" if "z \<in> set [l + 1..u]" "J z t" "body z t = Inr t'" for z t t'
    using that by (intro Suc.prems(3) [of z t t']) (simp_all add: unfold)
  show ?case
    by (rule Suc.hyps(1) [OF n rest J1 step])
qed

lemma sweep_vertexTableOk:
  assumes w: "getWidthInVoxels region \<le> 255" and h: "getHeightInVoxels region \<le> 255"
    and d: "getDepthInVoxels region \<le> 255"
    and run: "sweep volData region isQ cAO
               \<lparr>result = Mesh_clear res, m_previousSliceVertices = emptySlice,
                m_currentSliceVertices = emptySlice, m_vecQuads = qs\<rparr> = Inr st"
  shows "vertexTableOk (m_vecVertices (result st))"
proof -
  let ?st0 = "\<lparr>result = Mesh_clear res, m_previousSliceVertices = emptySlice,
                m_currentSliceVertices = emptySlice, m_vecQuads = qs\<rparr>"
  let ?J = "\<lambda>z st. sliceInv (nat (z - lowerZ region)) st"
  have init: "?J (lowerZ region) ?st0"
    by (simp add: sliceInv_def vertexTableOk_def Mesh_clear_def recorded_emptySlice)
  from run [unfolded sweep_def] init have "\<exists>k. ?J k st"
  proof (rule forM_upto_invariant)
    fix z s s'
    assume "z \<in> set [lowerZ region..upperZ region]" and "?J z s"
      and "sweepSlice volData region isQ cAO z s = Inr s'"
    with w h d show "?J (z + 1) s'"
      by (rule sweepSlice_sliceInv)
  qed
  then show ?thesis by (auto simp: sliceInv_def)
qed

subsection \<open>The vertex table after the sweep\<close>

lemma addQuadTriangles_vertices [simp]:
  "m_vecVertices (addQuadTriangles q m) = m_vecVertices m"
  by (simp add: addQuadTriangles_def Mesh_addTriangle_def Let_def)

lemma fold_addQuadTriangles_vertices [simp]:
  "m_vecVertices (fold addQuadTriangles qs m) = m_vecVertices m"
  by (induction qs arbitrary: m) simp_all

lemma triangulateList_vertices [simp]:
  "m_vecVertices (result (triangulateList b face sliceNo st)) = m_vecVertices (result st)"
  by (simp add: triangulateList_def Let_def)

lemma fold_triangulateList_vertices [simp]:
  "m_vecVertices (result (fold (triangulateList b face) sls st)) = m_vecVertices (result st)"
  by (induction sls arbitrary: st) simp_all

lemma triangulate_vertices [simp]:
  "m_vecVertices (result (triangulate region b st)) = m_vecVertices (result st)"
proof -
  have "m_vecVertices (result (fold (\<lambda>face st. fold (triangulateList b face)
                       [0..<length (m_vecQuads st ! faceIndex face)] st) faces st))
        = m_vecVertices (result st)" for faces
    by (induction faces arbitrary: st) simp_all
  then show ?thesis by (simp add: triangulate_def)
qed

lemma removeUnusedVertices_subseq:
  "subseq (m_vecVertices (removeUnusedVertices m)) (m_vecVertices m)"
proof -
  have "subseq (map (\<lambda>i. vs ! i) (filter P [0..<length vs])) vs" for vs :: "'a CubicVertex list" and P
  proof (induction vs rule: rev_induct)
    case Nil
    then show ?case by simp
  next
    case (snoc v vs)
    have same: "map (\<lambda>i. (vs @ [v]) ! i) (filter P [0..<length vs])
          = map (\<lambda>i. vs ! i) (filter P [0..<length vs])"
      by (rule map_cong) (auto simp: nth_append)
    have "[0..<length (vs @ [v])] = [0..<length vs] @ [length vs]"
      by simp
    then have "map (\<lambda>i. (vs @ [v]) ! i) (filter P [0..<length (vs @ [v])])
          = map (\<lambda>i. (vs @ [v]) ! i) (filter P [0..<length vs])
            @ map (\<lambda>i. (vs @ [v]) ! i) (filter P [length vs])"
      by (simp only: filter_append map_append)
    also have "\<dots> = map (\<lambda>i. vs ! i) (filter P [0..<length vs]) @ (if P (length vs) then [v] else [])"
      by (simp add: same)
    finally have eq: "map (\<lambda>i. (vs @ [v]) ! i) (filter P [0..<length (vs @ [v])])
          = map (\<lambda>i. vs ! i) (filter P [0..<length vs]) @ (if P (length vs) then [v] else [])" .
    have "subseq (if P (length vs) then [v] else []) [v]"
      by simp
    with snoc.IH have "subseq (map (\<lambda>i. vs ! i) (filter P [0..<length vs])
                     @ (if P (length vs) then [v] else [])) (vs @ [v])"
      by (rule list_emb_append_mono)
    then show ?case by (simp only: eq)
  qed
  then show ?thesis by (simp add: removeUnusedVertices_def)
qed

lemma vertexTableOk_subseq:
  assumes "vertexTableOk vs" and "subseq vs' vs"
  shows "vertexTableOk vs'"
proof -
  from assms(2) obtain N where "vs' = nths vs N"
    by (auto simp: subseq_conv_nths)
  with assms(1) have "distinct vs'"
    by (simp add: vertexTableOk_def)
  moreover have "length (filter (\<lambda>v. encodedPosition v = p) vs') \<le> 8" for p
  proof -
    from assms(2) have "subseq (filter (\<lambda>v. encodedPosition v = p) vs')
                               (filter (\<lambda>v. encodedPosition v = p) vs)"
      by (rule subseq_filter)
    then have "length (filter (\<lambda>v. encodedPosition v = p) vs')
               \<le> length (filter (\<lambda>v. encodedPosition v = p) vs)"
      by (rule list_emb_length)
    also from assms(1) have "\<dots> \<le> 8" unfolding vertexTableOk_def by blast
    finally show ?thesis .
  qed
  ultimately show ?thesis unfolding vertexTableOk_def by blast
qed

lemma extractCubicMeshCustom_vertexTableOk:
  assumes "extractCubicMeshCustom volData region res isQ cAO b = Inr mesh"
  shows "vertexTableOk (m_vecVertices mesh)"
proof -
  from assms have dims: "getWidthInVoxels region \<le> 255" "getHeightInVoxels region \<le> 255"
      "getDepthInVoxels region \<le> 255"
    by (auto simp: extractCubicMeshCustom_def maxReionDimensionInVoxels_def split: if_splits)
  with assms obtain st where
    run: "runExtraction volData region res isQ cAO b = Inr st" and
    mesh: "mesh = removeUnusedVertices (setOffset (getLowerCorner region) (result st))"
    by (auto simp: extractCubicMeshCustom_def maxReionDimensionInVoxels_def split: if_splits sum.splits)
  from run obtain st0 where
    sw: "sweep volData region isQ cAO
               \<lparr>result = Mesh_clear res, m_previousSliceVertices = emptySlice,
                m_currentSliceVertices = emptySlice,
                m_vecQuads = map (\<lambda>face. replicate (vecQuadsSize region face) []) allFaces\<rparr> = Inr st0"
    and st: "st = triangulate region b st0"
    by (auto simp: runExtraction_def split: sum.splits)
  from dims sw have "vertexTableOk (m_vecVertices (result st0))"
    by (rule sweep_vertexTableOk)
  then have "vertexTableOk (m_vecVertices (setOffset (getLowerCorner region) (result st)))"
    by (simp add: st setOffset_def)
  then show ?thesis
    unfolding mesh by (rule vertexTableOk_subseq) (rule removeUnusedVertices_subseq)
qed

text \<open>
  Claim C5. In every mesh the cubic extractor returns, at most 8 vertices have the same
  \<open>encodedPosition\<close>, and two distinct vertices with the same \<open>encodedPosition\<close> differ in
  their pair of \<open>data\<close> and \<open>ambientOcclusion\<close>.
\<close>

theorem C5_at_most_eight_distinct_vertices_per_position:
  assumes "extractCubicMeshCustom volData region res isQuadNeeded contributeToAO bMergeQuads = Inr mesh"
  shows "(\<forall>p. length (filter (\<lambda>v. encodedPosition v = p) (m_vecVertices mesh)) \<le> 8)
       \<and> (\<forall>i j. i < length (m_vecVertices mesh) \<and> j < length (m_vecVertices mesh) \<and> i \<noteq> j
              \<and> encodedPosition (m_vecVertices mesh ! i) = encodedPosition (m_vecVertices mesh ! j)
            \<longrightarrow> (data (m_vecVertices mesh ! i), ambientOcclusion (m_vecVertices mesh ! i))
                \<noteq> (data (m_vecVertices mesh ! j), ambientOcclusion (m_vecVertices mesh ! j)))"
proof -
  from assms have ok: "vertexTableOk (m_vecVertices mesh)"
    by (rule extractCubicMeshCustom_vertexTableOk)
  have "(data (m_vecVertices mesh ! i), ambientOcclusion (m_vecVertices mesh ! i))
                \<noteq> (data (m_vecVertices mesh ! j), ambientOcclusion (m_vecVertices mesh ! j))"
    if "i < length (m_vecVertices mesh)" "j < length (m_vecVertices mesh)" "i \<noteq> j"
       "encodedPosition (m_vecVertices mesh ! i) = encodedPosition (m_vecVertices mesh ! j)" for i j
  proof
    assume "(data (m_vecVertices mesh ! i), ambientOcclusion (m_vecVertices mesh ! i))
                = (data (m_vecVertices mesh ! j), ambientOcclusion (m_vecVertices mesh ! j))"
    with that(4) have "m_vecVertices mesh ! i = m_vecVertices mesh ! j"
      by (simp add: CubicVertex.equality)
    with ok that(1-3) show False
      by (simp add: vertexTableOk_def nth_eq_iff_index_eq)
  qed
  with ok show ?thesis unfolding vertexTableOk_def by blast
qed

theorem C5_at_most_eight_distinct_vertices_per_position_witness:
  "case extractCubicMeshCustom (singleVoxelVolume (1, 1, 1)) wholeVolume3 emptyMesh
          solidEmptyIsQuadNeeded solidContributesToAO False of
     Inl e \<Rightarrow> False
   | Inr mesh \<Rightarrow>
       (\<forall>p. length (filter (\<lambda>v. encodedPosition v = p) (m_vecVertices mesh)) \<le> 8)
     \<and> (\<forall>i j. i < length (m_vecVertices mesh) \<and> j < length (m_vecVertices mesh) \<and> i \<noteq> j
            \<and> encodedPosition (m_vecVertices mesh ! i) = encodedPosition (m_vecVertices mesh ! j)
          \<longrightarrow> (data (m_vecVertices mesh ! i), ambientOcclusion (m_vecVertices mesh ! i))
              \<noteq> (data (m_vecVertices mesh ! j), ambientOcclusion (m_vecVertices mesh ! j)))"
proof (cases "extractCubicMeshCustom (singleVoxelVolume (1, 1, 1)) wholeVolume3 emptyMesh
          solidEmptyIsQuadNeeded solidContributesToAO False")
  case (Inl e)
  with singleVoxel_mesh [of "(1, 1, 1)" False] show ?thesis by simp
next
  case (Inr mesh)
  from C5_at_most_eight_distinct_vertices_per_position [OF Inr] Inr show ?thesis by simp
qed

section \<open>Mesh decimation: data structures\<close>

text \<open>
  The embedding follows \<^verbatim>\<open>MeshDecimator.inl\<close>. Modelled from the spec: the classes
  \<^verbatim>\<open>Vector3DFloat\<close>, \<^verbatim>\<open>SurfaceMesh\<close>, \<^verbatim>\<open>PositionMaterial\<close> and
  \<^verbatim>\<open>PositionMaterialNormal\<close> are used by the decimator but defined elsewhere. Floating-point
  numbers are idealised as real numbers, and vectors are triples with the usual difference,
  sum, cross product, dot product and squared length. \<^verbatim>\<open>normalise\<close>, whose treatment of a
  vector of length zero is not visible from the decimator, is a parameter of the model, as
  is the threshold \<^verbatim>\<open>fMinDotProductForCollapse\<close>.
\<close>

type_synonym Vector3DFloat = "real \<times> real \<times> real"

definition vsub :: "Vector3DFloat \<Rightarrow> Vector3DFloat \<Rightarrow> Vector3DFloat" where
  "vsub a b = (case a of (ax, ay, az) \<Rightarrow> case b of (bx, by, bz) \<Rightarrow> (ax - bx, ay - by, az - bz))"

definition vadd :: "Vector3DFloat \<Rightarrow> Vector3DFloat \<Rightarrow> Vector3DFloat" where
  "vadd a b = (case a of (ax, ay, az) \<Rightarrow> case b of (bx, by, bz) \<Rightarrow> (ax + bx, ay + by, az + bz))"

definition cross :: "Vector3DFloat \<Rightarrow> Vector3DFloat \<Rightarrow> Vector3DFloat" where
  "cross a b = (case a of (ax, ay, az) \<Rightarrow> case b of (bx, by, bz) \<Rightarrow>
                  (ay * bz - az * by, az * bx - ax * bz, ax * by - ay * bx))"

definition dot :: "Vector3DFloat \<Rightarrow> Vector3DFloat \<Rightarrow> real" where
  "dot a b = (case a of (ax, ay, az) \<Rightarrow> case b of (bx, by, bz) \<Rightarrow> ax * bx + ay * by + az * bz)"

definition lengthSquared :: "Vector3DFloat \<Rightarrow> real" where
  "lengthSquared a = dot a a"

record DecimatorParams =
  normalise :: "Vector3DFloat \<Rightarrow> Vector3DFloat"
  fMinDotProductForCollapse :: real

text \<open>
  One vertex record serves both vertex types; \<^verbatim>\<open>PositionMaterial\<close> has no normal and no
  flags, and its \<^verbatim>\<open>canCollapseEdge\<close> reads neither. \<^verbatim>\<open>m_bFlags\<close> is the bit set of the
  vertex, bit 0 being the material-edge flag.
\<close>

datatype VertexKind = PositionMaterial | PositionMaterialNormal

record SurfaceVertex =
  position :: Vector3DFloat
  normal :: Vector3DFloat
  material :: nat
  m_bFlags :: "bool list"

definition isOnMaterialEdge :: "SurfaceVertex \<Rightarrow> bool" where
  "isOnMaterialEdge v = (0 < length (m_bFlags v) \<and> m_bFlags v ! 0)"

definition flagsAny :: "bool list \<Rightarrow> bool" where
  "flagsAny fl = list_ex (\<lambda>b. b) fl"

text \<open>
  The index buffer \<^verbatim>\<open>m_vecTriangleIndices\<close> holds three consecutive entries for each
  triangle: it is the list of the triangles. Entry \<open>3 * t + k\<close> of the buffer is corner \<open>k\<close>
  of triangle \<open>t\<close>.
\<close>

type_synonym Triangle = "nat \<times> nat \<times> nat"

record SurfaceMesh =
  sm_vecVertices :: "SurfaceVertex list"
  m_vecTriangleIndices :: "Triangle list"
  m_Region :: Region
  m_vecLodRecords :: "(nat \<times> nat) list"

definition corner :: "Triangle \<Rightarrow> nat \<Rightarrow> nat" where
  "corner t k = (case t of (a, b, c) \<Rightarrow> if k = 0 then a else if k = 1 then b else c)"

definition corners :: "Triangle \<Rightarrow> nat list" where
  "corners t = (case t of (a, b, c) \<Rightarrow> [a, b, c])"






text \<open>
  Modelled from the spec: \<^verbatim>\<open>Region::containsPoint\<close> tests a point against the closed
  box of the region.
\<close>

definition containsPoint :: "Region \<Rightarrow> Vector3DFloat \<Rightarrow> bool" where
  "containsPoint r p =
     (case p of (x, y, z) \<Rightarrow>
        x \<le> of_int (upperX r) \<and> y \<le> of_int (upperY r) \<and> z \<le> of_int (upperZ r)
      \<and> x \<ge> of_int (lowerX r) \<and> y \<ge> of_int (lowerY r) \<and> z \<ge> of_int (lowerZ r))"

section \<open>The tables of a decimation pass\<close>

text \<open>
  The members of the decimator that \<^verbatim>\<open>performDecimationPass\<close> fills in and
  \<^verbatim>\<open>canCollapseEdge\<close> reads. \<^verbatim>\<open>materialKey\<close> is filled in but never read, and is left
  out, as is the count of duplicates that the pass prints; the \<^verbatim>\<open>assert\<close> on
  \<^verbatim>\<open>noOfDifferentNormals\<close> is a debugging aid and is left out too.
\<close>

record DecimatorState =
  hasDuplicate :: "bool list"
  trianglesUsingVertex :: "nat list list"
  vertexMapper :: "nat list"
  vertexLocked :: "bool list"
  noOfDifferentNormals :: "nat list"
  m_vecNoOfNeighboursUsingMaterial :: "nat list"

text \<open>
  The two nested loops that fill \<^verbatim>\<open>hasDuplicate\<close>: \<open>outerCt\<close> runs over
  \<open>0, \<dots>, size - 2\<close> and \<open>innerCt\<close> over \<open>outerCt + 1, \<dots>, size - 1\<close>. (For an empty
  vertex table the bound \<^verbatim>\<open>size() - 1\<close> wraps around in the source; the inner loop then
  never runs, and no flag exists to be set.)
\<close>

definition markDuplicate :: "SurfaceVertex list \<Rightarrow> nat \<Rightarrow> nat \<Rightarrow> bool list \<Rightarrow> bool list" where
  "markDuplicate vs outerCt innerCt flags =
     (if lengthSquared (vsub (position (vs ! innerCt)) (position (vs ! outerCt))) < 1 / 1000
      then flags[innerCt := True, outerCt := True]
      else flags)"

definition computeHasDuplicate :: "SurfaceVertex list \<Rightarrow> bool list" where
  "computeHasDuplicate vs =
     fold (\<lambda>outerCt flags. fold (markDuplicate vs outerCt) [outerCt + 1..<length vs] flags)
       [0..<length vs - 1] (replicate (length vs) False)"

text \<open>
  \<^verbatim>\<open>trianglesUsingVertex\<close>: entry \<open>ct\<close> of the index buffer appends triangle \<open>ct / 3\<close>
  to the list of the vertex it names.
\<close>

definition computeTrianglesUsingVertex :: "SurfaceMesh \<Rightarrow> nat list list" where
  "computeTrianglesUsingVertex m =
     fold (\<lambda>triangle tuv.
             fold (\<lambda>v tuv. tuv[v := tuv ! v @ [triangle]]) (corners (m_vecTriangleIndices m ! triangle)) tuv)
       [0..<length (m_vecTriangleIndices m)] (replicate (length (sm_vecVertices m)) [])"

definition triNormal :: "SurfaceMesh \<Rightarrow> Triangle \<Rightarrow> Vector3DFloat" where
  "triNormal m t =
     (case t of (v0, v1, v2) \<Rightarrow>
        cross (vsub (position (sm_vecVertices m ! v1)) (position (sm_vecVertices m ! v0)))
              (vsub (position (sm_vecVertices m ! v2)) (position (sm_vecVertices m ! v0))))"

definition computeNoOfDifferentNormals :: "SurfaceMesh \<Rightarrow> nat list list \<Rightarrow> nat list" where
  "computeNoOfDifferentNormals m tuv =
     map (\<lambda>ct.
            (case fold (\<lambda>tri s. vadd s (triNormal m (m_vecTriangleIndices m ! tri))) (tuv ! ct) (0, 0, 0) of
               (sx, sy, sz) \<Rightarrow>
                 (if \<bar>sx\<bar> > 1 / 1000 then 1 else 0) + (if \<bar>sy\<bar> > 1 / 1000 then 1 else 0)
                 + (if \<bar>sz\<bar> > 1 / 1000 then 1 else (0 :: nat))))
       [0..<length (sm_vecVertices m)]"



section \<open>canCollapseEdge\<close>

text \<open>
  \<^verbatim>\<open>isSubset\<close> compares the bits 1 to 6, skipping the material flag.
\<close>

definition isSubset :: "bool list \<Rightarrow> bool list \<Rightarrow> bool" where
  "isSubset a b = list_all (\<lambda>ct. a ! ct \<longrightarrow> b ! ct) [1..<7]"

text \<open>
  The last test of both variants: would the collapse flip a triangle that uses \<open>v0\<close>? The
  positions are read through the current \<^verbatim>\<open>vertexMapper\<close>.
\<close>

definition triangleFlips :: "DecimatorParams \<Rightarrow> SurfaceMesh \<Rightarrow> DecimatorState \<Rightarrow> nat \<Rightarrow> nat \<Rightarrow> nat \<Rightarrow> bool" where
  "triangleFlips params m st v0 v1 tri =
     (case m_vecTriangleIndices m ! tri of (v0Old, v1Old, v2Old) \<Rightarrow>
        if v0Old = v1Old \<or> v1Old = v2Old \<or> v2Old = v0Old then False
        else
          (let v0New = (if v0Old = v0 then v1 else v0Old);
               v1New = (if v1Old = v0 then v1 else v1Old);
               v2New = (if v2Old = v0 then v1 else v2Old)
           in if v0New = v1New \<or> v1New = v2New \<or> v2New = v0New then False
              else
                (let pos = (\<lambda>v. position (sm_vecVertices m ! (vertexMapper st ! v)));
                     OldNormal = cross (vsub (pos v1Old) (pos v0Old)) (vsub (pos v2Old) (pos v1Old));
                     NewNormal = cross (vsub (pos v1New) (pos v0New)) (vsub (pos v2New) (pos v1New))
                 in dot (normalise params OldNormal) (normalise params NewNormal) < 9 / 10)))"

definition faceFlipped :: "DecimatorParams \<Rightarrow> SurfaceMesh \<Rightarrow> DecimatorState \<Rightarrow> nat \<Rightarrow> nat \<Rightarrow> bool" where
  "faceFlipped params m st v0 v1 =
     list_ex (triangleFlips params m st v0 v1) (trianglesUsingVertex st ! v0)"

definition movementValid :: "DecimatorParams \<Rightarrow> SurfaceMesh \<Rightarrow> nat \<Rightarrow> nat \<Rightarrow> bool" where
  "movementValid params m v0 v1 =
     (let movement = normalise params
                       (vsub (position (sm_vecVertices m ! v1)) (position (sm_vecVertices m ! v0)))
      in dot movement (0, 0, 1) > 999 / 1000 \<or> dot movement (0, 1, 0) > 999 / 1000
       \<or> dot movement (1, 0, 0) > 999 / 1000 \<or> dot movement (0, 0, -1) > 999 / 1000
       \<or> dot movement (0, -1, 0) > 999 / 1000 \<or> dot movement (-1, 0, 0) > 999 / 1000)"

definition canCollapseEdge_PositionMaterialNormal ::
  "DecimatorParams \<Rightarrow> SurfaceMesh \<Rightarrow> DecimatorState \<Rightarrow> nat \<Rightarrow> nat \<Rightarrow> bool" where
  "canCollapseEdge_PositionMaterialNormal params m st v0 v1 =
     (let vtx0 = sm_vecVertices m ! v0; vtx1 = sm_vecVertices m ! v1 in
      if vertexLocked st ! v0 \<or> vertexLocked st ! v1 then False
      else if material vtx0 \<noteq> material vtx1 then False
      else if (isOnMaterialEdge vtx0 \<or> isOnMaterialEdge vtx1)
              \<and> \<not> (movementValid params m v0 v1
                    \<and> (m_vecNoOfNeighboursUsingMaterial st ! v0 = m_vecNoOfNeighboursUsingMaterial st ! v1
                       \<and> m_vecNoOfNeighboursUsingMaterial st ! v0 = 4)) then False
      else if (flagsAny (m_bFlags vtx0) \<or> flagsAny (m_bFlags vtx1))
              \<and> \<not> (isSubset (m_bFlags vtx0) (m_bFlags vtx1)
                    \<and> dot (normal vtx0) (normal vtx1) > 999 / 1000) then False
      else if dot (normal vtx0) (normal vtx1) < fMinDotProductForCollapse params then False
      else if faceFlipped params m st v0 v1 then False
      else True)"

definition canCollapseEdge_PositionMaterial ::
  "DecimatorParams \<Rightarrow> SurfaceMesh \<Rightarrow> DecimatorState \<Rightarrow> nat \<Rightarrow> nat \<Rightarrow> bool" where
  "canCollapseEdge_PositionMaterial params m st v0 v1 =
     (if vertexLocked st ! v0 \<or> vertexLocked st ! v1 then False
      else if material (sm_vecVertices m ! v0) \<noteq> material (sm_vecVertices m ! v1) then False
      else if noOfDifferentNormals st ! v0 = 3 then False
      else if hasDuplicate st ! v0 then False
      else if noOfDifferentNormals st ! v0 > noOfDifferentNormals st ! v1 then False
      else
        (let offset = (case getLowerCorner (m_Region m) of (x, y, z) \<Rightarrow> (of_int x, of_int y, of_int z));
             v0Inside = containsPoint (m_Region m) (vadd (position (sm_vecVertices m ! v0)) offset)
         in if \<not> v0Inside then False
            else if faceFlipped params m st v0 v1 then False
            else True))"

definition canCollapseEdge ::
  "VertexKind \<Rightarrow> DecimatorParams \<Rightarrow> SurfaceMesh \<Rightarrow> DecimatorState \<Rightarrow> nat \<Rightarrow> nat \<Rightarrow> bool" where
  "canCollapseEdge kind =
     (case kind of
        PositionMaterial \<Rightarrow> canCollapseEdge_PositionMaterial
      | PositionMaterialNormal \<Rightarrow> canCollapseEdge_PositionMaterialNormal)"

section \<open>A decimation pass\<close>


text \<open>The tables as they are when the loop over the edges starts.\<close>

definition initialTables :: "SurfaceMesh \<Rightarrow> nat list \<Rightarrow> DecimatorState" where
  "initialTables m nbrs =
     (let tuv = computeTrianglesUsingVertex m in
      \<lparr>hasDuplicate = computeHasDuplicate (sm_vecVertices m),
       trianglesUsingVertex = tuv,
       vertexMapper = [0..<length (sm_vecVertices m)],
       vertexLocked = replicate (length (sm_vecVertices m)) False,
       noOfDifferentNormals = computeNoOfDifferentNormals m tuv,
       m_vecNoOfNeighboursUsingMaterial = nbrs\<rparr>)"




section \<open>execute\<close>






section \<open>The vertex mapper during a pass\<close>












section \<open>The duplicate flags\<close>

lemma markDuplicate_length [simp]: "length (markDuplicate vs outerCt innerCt flags) = length flags"
  by (simp add: markDuplicate_def)

lemma list_update_True_mono: "flags ! k \<Longrightarrow> k < length flags \<Longrightarrow> flags[i := True] ! k"
  by (cases "i < length flags") (auto simp: nth_list_update)

lemma markDuplicate_mono:
  "flags ! k \<Longrightarrow> k < length flags \<Longrightarrow> markDuplicate vs outerCt innerCt flags ! k"
  by (simp add: markDuplicate_def list_update_True_mono)

lemma markDuplicate_hit:
  assumes "lengthSquared (vsub (position (vs ! innerCt)) (position (vs ! outerCt))) < 1 / 1000"
    and "innerCt < length flags" and "outerCt < length flags"
  shows "markDuplicate vs outerCt innerCt flags ! innerCt \<and> markDuplicate vs outerCt innerCt flags ! outerCt"
  using assms by (simp add: markDuplicate_def nth_list_update)

lemma fold_markDuplicate_length [simp]:
  "length (fold (markDuplicate vs outerCt) inners flags) = length flags"
  by (induction inners arbitrary: flags) simp_all

lemma fold_markDuplicate_mono:
  "flags ! k \<Longrightarrow> k < length flags \<Longrightarrow> fold (markDuplicate vs outerCt) inners flags ! k"
  by (induction inners arbitrary: flags) (simp_all add: markDuplicate_mono)

lemma fold_markDuplicate_hit:
  assumes "innerCt \<in> set inners"
    and "lengthSquared (vsub (position (vs ! innerCt)) (position (vs ! outerCt))) < 1 / 1000"
    and "innerCt < length flags" and "outerCt < length flags"
  shows "fold (markDuplicate vs outerCt) inners flags ! innerCt
       \<and> fold (markDuplicate vs outerCt) inners flags ! outerCt"
  using assms
proof (induction inners arbitrary: flags)
  case Nil
  then show ?case by simp
next
  case (Cons x inners)
  show ?case
  proof (cases "x = innerCt")
    case True
    from Cons.prems(2-4) have "markDuplicate vs outerCt innerCt flags ! innerCt
        \<and> markDuplicate vs outerCt innerCt flags ! outerCt"
      by (rule markDuplicate_hit)
    with True Cons.prems(3,4) show ?thesis
      by (simp add: fold_markDuplicate_mono)
  next
    case False
    with Cons.prems have "innerCt \<in> set inners" by simp
    from Cons.IH [OF this Cons.prems(2), of "markDuplicate vs outerCt x flags"] Cons.prems(3,4)
    show ?thesis by simp
  qed
qed

definition duplicateRow :: "SurfaceVertex list \<Rightarrow> nat \<Rightarrow> bool list \<Rightarrow> bool list" where
  "duplicateRow vs outerCt flags = fold (markDuplicate vs outerCt) [outerCt + 1..<length vs] flags"

lemma fold_duplicateRow_length [simp]:
  "length (fold (duplicateRow vs) outers flags) = length flags"
  by (induction outers arbitrary: flags) (simp_all add: duplicateRow_def)

lemma fold_duplicateRow_mono:
  "flags ! k \<Longrightarrow> k < length flags \<Longrightarrow> fold (duplicateRow vs) outers flags ! k"
  by (induction outers arbitrary: flags) (simp_all add: duplicateRow_def fold_markDuplicate_mono)

lemma fold_duplicateRow_hit:
  assumes "outerCt \<in> set outers" and "outerCt < innerCt" and "innerCt < length vs"
    and "lengthSquared (vsub (position (vs ! innerCt)) (position (vs ! outerCt))) < 1 / 1000"
    and "length flags = length vs"
  shows "fold (duplicateRow vs) outers flags ! innerCt \<and> fold (duplicateRow vs) outers flags ! outerCt"
  using assms(1,5)
proof (induction outers arbitrary: flags)
  case Nil
  then show ?case by simp
next
  case (Cons x outers)
  show ?case
  proof (cases "x = outerCt")
    case True
    from assms(2,3) have "innerCt \<in> set [outerCt + 1..<length vs]" by simp
    with assms(2-4) Cons.prems(2)
    have "duplicateRow vs outerCt flags ! innerCt \<and> duplicateRow vs outerCt flags ! outerCt"
      unfolding duplicateRow_def by (intro fold_markDuplicate_hit) simp_all
    then have "fold (duplicateRow vs) outers (duplicateRow vs outerCt flags) ! innerCt
             \<and> fold (duplicateRow vs) outers (duplicateRow vs outerCt flags) ! outerCt"
      using assms(2,3) Cons.prems(2)
      by (auto intro!: fold_duplicateRow_mono simp: duplicateRow_def)
    with True show ?thesis by simp
  next
    case False
    with Cons.prems have "outerCt \<in> set outers" by simp
    from Cons.IH [OF this, of "duplicateRow vs x flags"] Cons.prems(2)
    show ?thesis by (simp add: duplicateRow_def)
  qed
qed

lemma computeHasDuplicate_pair:
  assumes "a < b" and "b < length vs"
    and "lengthSquared (vsub (position (vs ! b)) (position (vs ! a))) < 1 / 1000"
  shows "computeHasDuplicate vs ! a \<and> computeHasDuplicate vs ! b"
proof -
  have eq: "computeHasDuplicate vs
            = fold (duplicateRow vs) [0..<length vs - 1] (replicate (length vs) False)"
    unfolding computeHasDuplicate_def duplicateRow_def ..
  from assms(1,2) have "a \<in> set [0..<length vs - 1]" by simp
  from fold_duplicateRow_hit [OF this assms(1,2,3), of "replicate (length vs) False"]
  show ?thesis by (simp add: eq)
qed

lemma lengthSquared_vsub_commute: "lengthSquared (vsub a b) = lengthSquared (vsub b a)"
  by (cases a; cases b) (simp add: lengthSquared_def vsub_def dot_def power2_commute flip: power2_eq_square)

lemma lengthSquared_nonneg: "0 \<le> lengthSquared a"
  by (cases a) (simp add: lengthSquared_def dot_def)

lemma computeHasDuplicate_near:
  assumes "v0 < length vs" and "j < length vs" and "j \<noteq> v0"
    and "sqrt (lengthSquared (vsub (position (vs ! j)) (position (vs ! v0)))) \<le> 1 / 1000"
  shows "computeHasDuplicate vs ! v0"
proof -
  let ?d = "lengthSquared (vsub (position (vs ! j)) (position (vs ! v0)))"
  have "?d = (sqrt ?d)\<^sup>2"
    by (simp add: lengthSquared_nonneg)
  also from assms(4) have "\<dots> \<le> (1 / 1000)\<^sup>2"
    by (intro power_mono) (simp_all add: lengthSquared_nonneg)
  finally have close: "?d < 1 / 1000"
    by (simp add: power2_eq_square)
  from assms(3) consider "j < v0" | "v0 < j" by linarith
  then show ?thesis
  proof cases
    case 1
    from close have "lengthSquared (vsub (position (vs ! v0)) (position (vs ! j))) < 1 / 1000"
      by (simp add: lengthSquared_vsub_commute)
    from computeHasDuplicate_pair [OF 1 assms(1) this] show ?thesis by simp
  next
    case 2
    from computeHasDuplicate_pair [OF 2 assms(2) close] show ?thesis by simp
  qed
qed

text \<open>
  Claim C9. During a pass over a mesh of \<^verbatim>\<open>PositionMaterial\<close> vertices (no edge flags),
  whatever the mapper and the locks are, \<^verbatim>\<open>canCollapseEdge(v0, v1)\<close> returns false
  whenever \<^verbatim>\<open>noOfDifferentNormals[v0]\<close> is 3, whenever \<open>v0\<close> lies outside the region the
  mesh comes from, whenever \<^verbatim>\<open>noOfDifferentNormals[v0]\<close> is greater than
  \<^verbatim>\<open>noOfDifferentNormals[v1]\<close>, and whenever another vertex of the mesh lies within a
  distance of \<open>1 / 1000\<close> of \<open>v0\<close>.
\<close>

theorem C9_canCollapseEdge_PositionMaterial_rejects:
  assumes "v0 < length (sm_vecVertices m)"
    and "st = (initialTables m nbrs)\<lparr>vertexMapper := mapper, vertexLocked := locked\<rparr>"
    and "noOfDifferentNormals st ! v0 = 3
       \<or> \<not> containsPoint (m_Region m)
             (vadd (position (sm_vecVertices m ! v0))
                   (of_int (lowerX (m_Region m)), of_int (lowerY (m_Region m)), of_int (lowerZ (m_Region m))))
       \<or> noOfDifferentNormals st ! v0 > noOfDifferentNormals st ! v1
       \<or> (\<exists>j < length (sm_vecVertices m). j \<noteq> v0
            \<and> sqrt (lengthSquared (vsub (position (sm_vecVertices m ! j))
                                         (position (sm_vecVertices m ! v0)))) \<le> 1 / 1000)"
  shows "\<not> canCollapseEdge PositionMaterial params m st v0 v1"
proof -
  have dup: "hasDuplicate st ! v0"
    if "\<exists>j < length (sm_vecVertices m). j \<noteq> v0
            \<and> sqrt (lengthSquared (vsub (position (sm_vecVertices m ! j))
                                         (position (sm_vecVertices m ! v0)))) \<le> 1 / 1000"
  proof -
    from that obtain j where "j < length (sm_vecVertices m)" "j \<noteq> v0"
      "sqrt (lengthSquared (vsub (position (sm_vecVertices m ! j))
                                         (position (sm_vecVertices m ! v0)))) \<le> 1 / 1000"
      by blast
    with assms(1) have "computeHasDuplicate (sm_vecVertices m) ! v0"
      by (intro computeHasDuplicate_near [of v0 _ j]) simp_all
    then show ?thesis by (simp add: assms(2) initialTables_def Let_def)
  qed
  from assms(3) dup show ?thesis
    by (auto simp: canCollapseEdge_def canCollapseEdge_PositionMaterial_def Let_def getLowerCorner_def)
qed

section \<open>Termination of the decimation loop\<close>



































section \<open>A mesh with a degenerate triangle\<close>

definition normaliseByLength :: "Vector3DFloat \<Rightarrow> Vector3DFloat" where
  "normaliseByLength v =
     (case v of (x, y, z) \<Rightarrow>
        (x / sqrt (lengthSquared v), y / sqrt (lengthSquared v), z / sqrt (lengthSquared v)))"

definition exampleParams :: DecimatorParams where
  "exampleParams = \<lparr>normalise = normaliseByLength, fMinDotProductForCollapse = 999 / 1000\<rparr>"

definition exampleVertex :: "Vector3DFloat \<Rightarrow> nat \<Rightarrow> SurfaceVertex" where
  "exampleVertex p mat = \<lparr>position = p, normal = (0, 0, 1), material = mat, m_bFlags = replicate 7 False\<rparr>"








section \<open>A square of two triangles\<close>









definition duplicateMesh :: SurfaceMesh where
  "duplicateMesh =
     \<lparr>sm_vecVertices = [exampleVertex (0, 0, 0) 1, exampleVertex (0, 0, 0) 1, exampleVertex (5, 0, 0) 1],
      m_vecTriangleIndices = [(0, 1, 2)],
      m_Region = \<lparr>lowerX = 0, lowerY = 0, lowerZ = 0, upperX = 4, upperY = 4, upperZ = 4\<rparr>,
      m_vecLodRecords = []\<rparr>"

section \<open>The claims on the examples\<close>


theorem C9_canCollapseEdge_PositionMaterial_rejects_witness:
  "\<not> canCollapseEdge PositionMaterial exampleParams duplicateMesh
       ((initialTables duplicateMesh [])\<lparr>vertexMapper := [0, 1, 2], vertexLocked := [False, False, False]\<rparr>)
       0 2
   \<and> \<not> canCollapseEdge PositionMaterial exampleParams duplicateMesh
       ((initialTables duplicateMesh [])\<lparr>vertexMapper := [0, 1, 2], vertexLocked := [False, False, False]\<rparr>)
       2 0"
proof -
  let ?st = "(initialTables duplicateMesh [])\<lparr>vertexMapper := [0, 1, 2], vertexLocked := [False, False, False]\<rparr>"
  have n: "0 < length (sm_vecVertices duplicateMesh)" "2 < length (sm_vecVertices duplicateMesh)"
    by (simp_all add: duplicateMesh_def)
  have near: "\<exists>j < length (sm_vecVertices duplicateMesh). j \<noteq> 0
            \<and> sqrt (lengthSquared (vsub (position (sm_vecVertices duplicateMesh ! j))
                                         (position (sm_vecVertices duplicateMesh ! 0)))) \<le> 1 / 1000"
    by (rule exI [of _ 1])
       (simp add: duplicateMesh_def exampleVertex_def vsub_def lengthSquared_def dot_def)
  have outside: "\<not> containsPoint (m_Region duplicateMesh)
             (vadd (position (sm_vecVertices duplicateMesh ! 2))
                   (of_int (lowerX (m_Region duplicateMesh)), of_int (lowerY (m_Region duplicateMesh)),
                    of_int (lowerZ (m_Region duplicateMesh))))"
    by (simp add: duplicateMesh_def exampleVertex_def containsPoint_def vadd_def)
  have "\<not> canCollapseEdge PositionMaterial exampleParams duplicateMesh ?st 0 2"
    by (rule C9_canCollapseEdge_PositionMaterial_rejects [OF n(1) refl]) (use near in blast)
  moreover
  have "\<not> canCollapseEdge PositionMaterial exampleParams duplicateMesh ?st 2 0"
    by (rule C9_canCollapseEdge_PositionMaterial_rejects [OF n(2) refl]) (use outside in blast)
  ultimately show ?thesis by blast
qed



end
